theory Spec2Isabelle
  imports Main
begin

section \<open>The JSONP mixin of \<open>vo-jsonp\<close> (\<open>src/jsonp-mixin.js\<close>)\<close>

text \<open>
  The mixin is a class whose methods read and write the properties of one element, the
  \<^emph>\<open>manager\<close>. The embedding passes the manager explicitly: every method takes the manager
  and returns its result together with the manager as the method left it. A method that
  throws returns \<open>Inl\<close> of the error together with the manager as it was when the exception
  was raised, so that what a throwing call has already written stays visible.

  Objects that the source compares by identity (requests, script elements, timers) are
  references (natural numbers) into stores held by the manager record. The record also
  holds the part of the browser that the methods touch: the global object \<open>window\<close>, the
  children of the document's \<open>head\<close>, the events handed to \<open>dispatchEvent\<close>, the values
  that \<open>Math.random\<close> is going to return, and the host's pending timeouts.

  Left out, as the framework's own business: the change notifications and attribute
  reflection of the Polymer property system, event listeners (they are assumed not to
  call back into the manager while a method runs), and the sharing of a property's
  literal default between element instances.
\<close>

subsection \<open>Values\<close>

type_synonym req_ref = nat
type_synonym elem_ref = nat
type_synonym timer_ref = nat

text \<open>A response payload and a DOM event are opaque to the mixin.\<close>

type_synonym json = string
type_synonym dom_event = string

text \<open>
  A plain object with string values: its own properties in the order in which
  \<open>Object.keys\<close> lists them.
\<close>

type_synonym js_object = "(string \<times> string) list"

text \<open>
  The two \<open>Error\<close>s that \<open>generateRequest\<close> throws (the first about \<open>callback-value\<close>,
  the second about \<open>url\<close>), and the \<open>TypeError\<close> of reading a property of \<open>null\<close> or
  \<open>undefined\<close>.
\<close>

datatype js_error = CallbackValueError | UrlError | TypeError

text \<open>The three bound methods that \<open>generateRequest\<close> installs, each bound to a request.\<close>

datatype handler = HandleLoad req_ref | HandleError req_ref | HandleResponse req_ref

text \<open>
  \<open>new CustomEvent(type, init)\<close>: the type and the init dictionary, \<open>None\<close> when the
  constructor got one argument only. \<open>dispatchEvent\<close> takes one argument, the event; the
  source passes it a second one, which the call ignores.
\<close>

datatype event = CustomEvent string "dom_event option"

record request_options =
  opt_cache :: bool
  opt_callbackKey :: "string option"
  opt_callbackValue :: string
  opt_sync :: bool
  opt_url :: string

record request =
  req_loading :: bool
  req_options :: "request_options option"
  req_script :: "elem_ref option"

record script_element =
  src :: string
  async :: bool
  onload :: "handler option"
  onerror :: "handler option"

text \<open>
  A \<open>Polymer.Debouncer\<close>: its \<open>_timer\<close> field, \<open>None\<close> for \<open>null\<close> (not active).
\<close>

datatype debouncer = Debouncer "timer_ref option"

text \<open>
  The manager. The first group are the declared properties, under their names in the
  source (\<open>callbackKey\<close> is \<open>None\<close> when it is \<open>undefined\<close>, as are the four \<open>last...\<close>
  properties and \<open>params\<close>); then the private \<open>_debounceJob\<close>; then the stores and the
  browser.
\<close>

record manager =
  activeRequests :: "req_ref list"
  auto :: bool
  cache :: bool
  callbackKey :: "string option"
  callbackValue :: string
  debounceDuration :: nat
  lastAborted :: bool
  lastError :: "dom_event option"
  lastLoad :: "dom_event option"
  lastRequest :: "req_ref option"
  lastResponse :: "json option"
  loading :: bool
  params :: "js_object option"
  sync :: bool
  url :: string
  debounceJob :: "debouncer option"
  requests :: "req_ref \<rightharpoonup> request"
  nextRequest :: req_ref
  elements :: "elem_ref \<rightharpoonup> script_element"
  nextElement :: elem_ref
  head_children :: "elem_ref list"
  window :: "string \<rightharpoonup> handler"
  dispatched :: "event list"
  randoms :: "nat \<Rightarrow> nat"
  randomsUsed :: nat
  timeouts :: "(timer_ref \<times> nat) list"
  nextTimer :: timer_ref
  clock :: nat


subsection \<open>Strings\<close>

text \<open>\<open>Array.prototype.join\<close> on a list of strings.\<close>

fun join :: "string \<Rightarrow> string list \<Rightarrow> string" where
  "join sep [] = []"
| "join sep [x] = x"
| "join sep (x # y # ys) = x @ sep @ join sep (y # ys)"

text \<open>\<open>Number.prototype.toString(16)\<close> of a number from 0 to 15.\<close>

definition toString16 :: "nat \<Rightarrow> char" where
  "toString16 n = ''0123456789abcdef'' ! (n mod 16)"

definition hexUpper :: "nat \<Rightarrow> char" where
  "hexUpper n = ''0123456789ABCDEF'' ! (n mod 16)"

text \<open>
  \<open>encodeURIComponent\<close>: the unreserved characters of ECMAScript stay, every other
  byte of the string's UTF-8 form becomes \<open>%XX\<close>. A \<open>string\<close> here is that UTF-8 form.
\<close>

definition uriUnreserved :: "char \<Rightarrow> bool" where
  "uriUnreserved c \<longleftrightarrow>
     c \<in> set ''ABCDEFGHIJKLMNOPQRSTUVWXYZabcdefghijklmnopqrstuvwxyz0123456789-_.!~*()''
     \<or> c = CHR 0x27"

definition encodeURIComponent :: "string \<Rightarrow> string" where
  "encodeURIComponent str =
     concat (map (\<lambda>c. if uriUnreserved c then [c]
                        else [CHR ''%'', hexUpper (of_char c div 16), hexUpper (of_char c mod 16)])
                 str)"

subsection \<open>Plain objects\<close>

text \<open>
  \<open>Object.keys\<close> lists the keys that are array indices first, by value, then the
  other keys in the order of their creation. \<open>obj_set ps k v\<close> is the assignment
  \<open>ps[k] = v\<close>: an existing property keeps its place, a new one goes where that order
  puts it.
\<close>

definition isDigit :: "char \<Rightarrow> bool" where
  "isDigit c \<longleftrightarrow> c \<in> set ''0123456789''"

definition indexValue :: "string \<Rightarrow> nat" where
  "indexValue k = foldl (\<lambda>n c. 10 * n + (of_char c - 48)) 0 k"

definition isArrayIndex :: "string \<Rightarrow> bool" where
  "isArrayIndex k \<longleftrightarrow>
     k \<noteq> [] \<and> list_all isDigit k \<and> (k = ''0'' \<or> hd k \<noteq> CHR ''0'')
     \<and> indexValue k < 4294967295"

fun obj_insert :: "string \<Rightarrow> string \<Rightarrow> js_object \<Rightarrow> js_object" where
  "obj_insert k v [] = [(k, v)]"
| "obj_insert k v (p # ps) =
     (if isArrayIndex (fst p) \<and> indexValue (fst p) < indexValue k
      then p # obj_insert k v ps
      else (k, v) # p # ps)"

definition obj_set :: "js_object \<Rightarrow> string \<Rightarrow> string \<Rightarrow> js_object" where
  "obj_set ps k v =
     (if k \<in> fst ` set ps then map (\<lambda>p. if fst p = k then (k, v) else p) ps
      else if isArrayIndex k then obj_insert k v ps
      else ps @ [(k, v)])"

text \<open>A property key is a string: \<open>undefined\<close> used as a key is the string "undefined".\<close>

definition toPropertyKey :: "string option \<Rightarrow> string" where
  "toPropertyKey k = (case k of None \<Rightarrow> ''undefined'' | Some str \<Rightarrow> str)"

subsection \<open>\<open>_newGuid\<close>\<close>

text \<open>
  \<open>randoms s i\<close> is what the \<open>i\<close>-th evaluation of \<open>Math.random() * 16 | 0\<close> gives (taken
  modulo 16, a number from 0 to 15), and \<open>randomsUsed s\<close> counts the evaluations so far.
  \<open>replaceXY\<close> is the \<open>replace(/[xy]/g, ...)\<close> of the template: one draw for every \<open>x\<close>
  and \<open>y\<close>, from left to right.
\<close>

definition guidTemplate :: string where
  "guidTemplate = ''xxxxxxxx-xxxx-4xxx-yxxx-xxxxxxxxxxxx''"

fun replaceXY :: "string \<Rightarrow> (nat \<Rightarrow> nat) \<Rightarrow> nat \<Rightarrow> string" where
  "replaceXY [] rnd i = []"
| "replaceXY (c # cs) rnd i =
     (if c = CHR ''x'' \<or> c = CHR ''y''
      then (let randomNum = rnd i mod 16;
                val = (if c = CHR ''x'' then randomNum else or (and randomNum 3) 8)
            in toString16 val # replaceXY cs rnd (Suc i))
      else c # replaceXY cs rnd i)"

definition countXY :: "string \<Rightarrow> nat" where
  "countXY t = length (filter (\<lambda>c. c = CHR ''x'' \<or> c = CHR ''y'') t)"

definition newGuid :: "bool \<Rightarrow> manager \<Rightarrow> string \<times> manager" where
  "newGuid noDashes s =
     (let guid = replaceXY guidTemplate (randoms s) (randomsUsed s);
          s' = s\<lparr>randomsUsed := randomsUsed s + countXY guidTemplate\<rparr>
      in (if noDashes then filter (\<lambda>c. c \<noteq> CHR ''-'') guid else guid, s'))"

subsection \<open>The getters \<open>_queryString\<close>, \<open>_requestUrl\<close> and \<open>_requestOptions\<close>\<close>

text \<open>
  \<open>_queryString\<close> writes into the object that \<open>this.params\<close> refers to; only when
  \<open>this.params\<close> is \<open>undefined\<close> does it write into a fresh object that nobody else
  sees.
\<close>

definition queryPiece :: "string \<times> string \<Rightarrow> string" where
  "queryPiece p = fst p @ ''='' @ encodeURIComponent (snd p)"

definition queryString :: "manager \<Rightarrow> string \<times> manager" where
  "queryString s =
     (let params0 = (case params s of None \<Rightarrow> [] | Some ps \<Rightarrow> ps);
          params1 = (if callbackKey s = None \<or> callbackKey s \<noteq> Some []
                     then obj_set params0 (toPropertyKey (callbackKey s)) (callbackValue s)
                     else params0);
          (params2, s1) = (if \<not> cache s
                           then (let (guid, s') = newGuid True s
                                 in (obj_set params1 ''_'' guid, s'))
                           else (params1, s));
          s2 = (case params s of None \<Rightarrow> s1 | Some _ \<Rightarrow> s1\<lparr>params := Some params2\<rparr>)
      in (join ''&'' (map queryPiece params2), s2))"

definition requestUrl :: "manager \<Rightarrow> string \<times> manager" where
  "requestUrl s =
     (let (queryString', s1) = queryString s
      in (if queryString' \<noteq> [] then url s1 @ ''?'' @ queryString' else url s1, s1))"

definition requestOptions :: "manager \<Rightarrow> request_options \<times> manager" where
  "requestOptions s =
     (let cache' = cache s;
          callbackKey' = callbackKey s;
          callbackValue' = callbackValue s;
          sync' = sync s;
          (url', s1) = requestUrl s
      in (\<lparr>opt_cache = cache', opt_callbackKey = callbackKey',
           opt_callbackValue = callbackValue', opt_sync = sync', opt_url = url'\<rparr>, s1))"

subsection \<open>\<open>generateRequest\<close>\<close>

text \<open>
  The regular expression \<open>/^vo_jsonp_callback_[0-9a-f]{32}$/\<close>.
\<close>

definition isLowerHex :: "char \<Rightarrow> bool" where
  "isLowerHex c \<longleftrightarrow> c \<in> set ''0123456789abcdef''"

definition matchesGeneratedPattern :: "string \<Rightarrow> bool" where
  "matchesGeneratedPattern v \<longleftrightarrow>
     length v = 50 \<and> take 18 v = ''vo_jsonp_callback_'' \<and> list_all isLowerHex (drop 18 v)"

definition dispatchEvent :: "event \<Rightarrow> manager \<Rightarrow> manager" where
  "dispatchEvent e s = s\<lparr>dispatched := dispatched s @ [e]\<rparr>"

definition setRequest :: "req_ref \<Rightarrow> (request \<Rightarrow> request) \<Rightarrow> manager \<Rightarrow> manager" where
  "setRequest r f s =
     (case requests s r of None \<Rightarrow> s
      | Some q \<Rightarrow> s\<lparr>requests := (requests s)(r \<mapsto> f q)\<rparr>)"

text \<open>
  The document is assumed to have a \<open>head\<close>. The new request and the new script element
  are fresh references.
\<close>

definition generateRequest :: "manager \<Rightarrow> (js_error + req_ref) \<times> manager" where
  "generateRequest s =
     (if cache s \<and> (matchesGeneratedPattern (callbackValue s) \<or> callbackValue s = [])
      then (Inl CallbackValueError, s)
      else if url s = [] then (Inl UrlError, s)
      else
        (let request = nextRequest s;
             s1 = s\<lparr>requests := (requests s)(request \<mapsto>
                       \<lparr>req_loading = True, req_options = None, req_script = None\<rparr>),
                     nextRequest := Suc request\<rparr>;
             s2 = s1\<lparr>loading := True\<rparr>;
             s3 = s2\<lparr>lastAborted := False\<rparr>;
             s4 = s3\<lparr>lastRequest := Some request\<rparr>;
             s5 = s4\<lparr>activeRequests := activeRequests s4 @ [request]\<rparr>;
             (options, s6) = requestOptions s5;
             s7 = setRequest request (\<lambda>q. q\<lparr>req_options := Some options\<rparr>) s6;
             script = nextElement s7;
             s8 = setRequest request (\<lambda>q. q\<lparr>req_script := Some script\<rparr>)
                    (s7\<lparr>elements := (elements s7)(script \<mapsto>
                           \<lparr>src = [], async = True, onload = None, onerror = None\<rparr>),
                         nextElement := Suc script\<rparr>);
             (src', s9) = requestUrl s8;
             s10 = s9\<lparr>elements := (elements s9)(script \<mapsto>
                        \<lparr>src = src', async = (if sync s9 then False else True),
                         onload = Some (HandleLoad request),
                         onerror = Some (HandleError request)\<rparr>)\<rparr>;
             s11 = s10\<lparr>window := (window s10)(callbackValue s10 \<mapsto> HandleResponse request)\<rparr>;
             s12 = s11\<lparr>head_children := head_children s11 @ [script]\<rparr>;
             s13 = dispatchEvent (CustomEvent ''sent'' None) s12
         in (Inr request, s13)))"


subsection \<open>\<open>abortRequest\<close>, \<open>_discardRequest\<close> and \<open>_cleanupRequest\<close>\<close>

text \<open>\<open>Array.prototype.indexOf\<close>: the first index of the element, \<open>-1\<close> when there is none.\<close>

fun indexOf :: "'a list \<Rightarrow> 'a \<Rightarrow> int" where
  "indexOf [] x = - 1"
| "indexOf (y # ys) x =
     (if y = x then 0 else (let i = indexOf ys x in if i < 0 then - 1 else i + 1))"

text \<open>\<open>xs.splice(i, 1)\<close>, for the array that is left.\<close>

definition splice1 :: "nat \<Rightarrow> 'a list \<Rightarrow> 'a list" where
  "splice1 i xs = take i xs @ drop (Suc i) xs"

definition isLoading :: "manager \<Rightarrow> req_ref \<Rightarrow> bool" where
  "isLoading s r = (case requests s r of None \<Rightarrow> False | Some q \<Rightarrow> req_loading q)"

text \<open>
  The argument is \<open>None\<close> when the caller passed no request (\<open>undefined\<close>), which
  \<open>indexOf\<close> does not find. The last statement reads \<open>request.script.parentNode\<close>: it
  throws a \<open>TypeError\<close> when the request has no script or the script is not in the
  document. A node is a child of its parent once, so \<open>removeAll\<close> is \<open>removeChild\<close>.
\<close>

definition cleanupRequest :: "req_ref option \<Rightarrow> manager \<Rightarrow> (js_error + unit) \<times> manager" where
  "cleanupRequest request s =
     (let requestIndex = (case request of None \<Rightarrow> - 1 | Some r \<Rightarrow> indexOf (activeRequests s) r)
      in if requestIndex \<ge> 0
         then
           (let i = nat requestIndex;
                s1 = setRequest (activeRequests s ! i) (\<lambda>q. q\<lparr>req_loading := False\<rparr>) s;
                loadingRequests = filter (isLoading s1) (activeRequests s1);
                s2 = (if length loadingRequests = 0 then s1\<lparr>loading := False\<rparr> else s1);
                s3 = s2\<lparr>activeRequests := splice1 i (activeRequests s2)\<rparr>;
                s4 = s3\<lparr>window := (window s3)(callbackValue s3 := None)\<rparr>
            in case Option.bind (Option.bind request (requests s4)) req_script of
                 None \<Rightarrow> (Inl TypeError, s4)
               | Some script \<Rightarrow>
                   if script \<in> set (head_children s4)
                   then (Inr (), s4\<lparr>head_children := removeAll script (head_children s4)\<rparr>)
                   else (Inl TypeError, s4))
         else (Inr (), s))"

definition abortRequest :: "req_ref option \<Rightarrow> manager \<Rightarrow> (js_error + unit) \<times> manager" where
  "abortRequest request0 s =
     (let request = (if request0 = None \<and> length (activeRequests s) \<noteq> 0
                     then Some (activeRequests s ! (length (activeRequests s) - 1))
                     else request0);
          s1 = (case request of
                  None \<Rightarrow> s
                | Some r \<Rightarrow>
                    if indexOf (activeRequests s) r = int (length (activeRequests s)) - 1
                    then s\<lparr>lastAborted := True\<rparr> else s)
      in cleanupRequest request s1)"

definition discardRequest :: "req_ref option \<Rightarrow> manager \<Rightarrow> (js_error + unit) \<times> manager" where
  "discardRequest request s =
     (case cleanupRequest request s of
        (Inl e, s1) \<Rightarrow> (Inl e, s1)
      | (Inr _, s1) \<Rightarrow> (Inr (), dispatchEvent (CustomEvent ''complete'' None) s1))"

subsection \<open>The handlers\<close>

definition handleResponse :: "req_ref \<Rightarrow> json \<Rightarrow> manager \<Rightarrow> (js_error + unit) \<times> manager" where
  "handleResponse request data s =
     (let s1 = s\<lparr>lastResponse := Some data\<rparr>;
          s2 = s1\<lparr>lastError := None\<rparr>;
          s3 = dispatchEvent (CustomEvent ''response'' None) s2
      in discardRequest (Some request) s3)"

definition handleError :: "req_ref \<Rightarrow> dom_event \<Rightarrow> manager \<Rightarrow> (js_error + unit) \<times> manager" where
  "handleError request ev s =
     (let s1 = s\<lparr>lastResponse := None\<rparr>;
          s2 = s1\<lparr>lastError := Some ev\<rparr>;
          s3 = dispatchEvent (CustomEvent ''error'' None) s2
      in discardRequest (Some request) s3)"

definition handleLoad :: "req_ref \<Rightarrow> dom_event \<Rightarrow> manager \<Rightarrow> manager" where
  "handleLoad request ev s =
     (let s1 = s\<lparr>lastLoad := Some ev\<rparr>
      in dispatchEvent (CustomEvent ''load'' (Some ev)) s1)"

text \<open>What the browser does when it calls one of the installed handlers.\<close>

fun callHandler :: "handler \<Rightarrow> string \<Rightarrow> manager \<Rightarrow> (js_error + unit) \<times> manager" where
  "callHandler (HandleLoad r) arg s = (Inr (), handleLoad r arg s)"
| "callHandler (HandleError r) arg s = handleError r arg s"
| "callHandler (HandleResponse r) arg s = handleResponse r arg s"

subsection \<open>The element as created\<close>

text \<open>
  The declared default values. The default of \<open>callbackValue\<close> is a function, which is
  called once, when the element is created.
\<close>

definition callbackValueDefault :: "manager \<Rightarrow> string \<times> manager" where
  "callbackValueDefault s =
     (let (guid, s') = newGuid True s in (''vo_jsonp_callback_'' @ guid, s'))"

definition blank :: "(nat \<Rightarrow> nat) \<Rightarrow> manager" where
  "blank rnd =
     \<lparr>activeRequests = [], auto = False, cache = False, callbackKey = Some ''callback'',
      callbackValue = [], debounceDuration = 0, lastAborted = False, lastError = None,
      lastLoad = None, lastRequest = None, lastResponse = None, loading = False,
      params = Some [], sync = False, url = [], debounceJob = None,
      requests = Map.empty, nextRequest = 0, elements = Map.empty, nextElement = 0,
      head_children = [], window = Map.empty, dispatched = [],
      randoms = rnd, randomsUsed = 0, timeouts = [], nextTimer = 0, clock = 0\<rparr>"

definition created :: "(nat \<Rightarrow> nat) \<Rightarrow> manager" where
  "created rnd =
     (let (v, s) = callbackValueDefault (blank rnd) in s\<lparr>callbackValue := v\<rparr>)"


subsection \<open>The observer \<open>_requestOptionsChanged\<close> and its debouncer\<close>

text \<open>
  Modelled from the spec: \<open>Polymer.Async.timeOut\<close> and \<open>Polymer.Debouncer\<close>, which the
  observer calls and which are not among the sources. The spec has the collaborator as
  a scheduling primitive with a single pending timer, where each change cancels and
  restarts the timer: \<open>timeOut.after(d).run(f)\<close> is a timeout due \<open>d\<close> milliseconds
  from now, and \<open>Debouncer.debounce(job, ...)\<close> cancels the timeout of \<open>job\<close>, if \<open>job\<close>
  is a debouncer with one pending, and starts a new one. \<open>timeouts s\<close> are the host's
  pending timeouts, each with the time at which it is due.
\<close>

definition setTimeout :: "nat \<Rightarrow> manager \<Rightarrow> timer_ref \<times> manager" where
  "setTimeout delay s =
     (nextTimer s,
      s\<lparr>timeouts := timeouts s @ [(nextTimer s, clock s + delay)],
        nextTimer := Suc (nextTimer s)\<rparr>)"

definition clearTimeout :: "timer_ref \<Rightarrow> manager \<Rightarrow> manager" where
  "clearTimeout t s = s\<lparr>timeouts := filter (\<lambda>p. fst p \<noteq> t) (timeouts s)\<rparr>"

definition debounce :: "debouncer option \<Rightarrow> nat \<Rightarrow> manager \<Rightarrow> debouncer \<times> manager" where
  "debounce job delay s =
     (let s1 = (case job of Some (Debouncer (Some t)) \<Rightarrow> clearTimeout t s | _ \<Rightarrow> s);
          (t', s2) = setTimeout delay s1
      in (Debouncer (Some t'), s2))"

text \<open>
  The callback that the observer hands to the debouncer: \<open>generateRequest\<close> when \<open>auto\<close>
  is set, any error dropped by the \<open>catch\<close>.
\<close>

definition debounceCallback :: "manager \<Rightarrow> manager" where
  "debounceCallback s = (if auto s then snd (generateRequest s) else s)"

definition requestOptionsChanged :: "manager \<Rightarrow> manager" where
  "requestOptionsChanged s =
     (let (job, s1) = debounce (debounceJob s) (debounceDuration s) s
      in s1\<lparr>debounceJob := Some job\<rparr>)"

text \<open>
  Modelled from the spec: the host running a pending timeout of the debouncer, possible
  once the timeout is due. The debouncer forgets its timer and runs the callback.
\<close>

definition timerFires :: "timer_ref \<Rightarrow> manager \<Rightarrow> manager option" where
  "timerFires t s =
     (case map_of (timeouts s) t of
        None \<Rightarrow> None
      | Some due \<Rightarrow>
          if clock s < due then None
          else Some (debounceCallback
                 ((clearTimeout t s)\<lparr>debounceJob := Some (Debouncer None)\<rparr>)))"

definition tick :: "nat \<Rightarrow> manager \<Rightarrow> manager" where
  "tick d s = s\<lparr>clock := clock s + d\<rparr>"

subsection \<open>What can happen to a manager\<close>

text \<open>A write to one of the eight properties that the observer watches.\<close>

datatype change =
    SetAuto bool
  | SetCache bool
  | SetCallbackKey "string option"
  | SetCallbackValue string
  | SetDebounceDuration nat
  | SetParams "js_object option"
  | SetSync bool
  | SetUrl string

fun assign :: "change \<Rightarrow> manager \<Rightarrow> manager" where
  "assign (SetAuto b) s = s\<lparr>auto := b\<rparr>"
| "assign (SetCache b) s = s\<lparr>cache := b\<rparr>"
| "assign (SetCallbackKey k) s = s\<lparr>callbackKey := k\<rparr>"
| "assign (SetCallbackValue v) s = s\<lparr>callbackValue := v\<rparr>"
| "assign (SetDebounceDuration d) s = s\<lparr>debounceDuration := d\<rparr>"
| "assign (SetParams ps) s = s\<lparr>params := ps\<rparr>"
| "assign (SetSync b) s = s\<lparr>sync := b\<rparr>"
| "assign (SetUrl u) s = s\<lparr>url := u\<rparr>"

text \<open>
  The managers that a created element can become: by property writes, runs of the
  observer, the passing of time, a timeout of the debouncer, calls of the two public
  methods, and the browser calling an installed handler. A call that throws leaves the
  manager as it was at the throw.
\<close>

inductive reachable :: "manager \<Rightarrow> bool" where
  created: "reachable (created rnd)"
| assign: "reachable s \<Longrightarrow> reachable (assign c s)"
| observer: "reachable s \<Longrightarrow> reachable (requestOptionsChanged s)"
| tick: "reachable s \<Longrightarrow> reachable (tick d s)"
| timer: "reachable s \<Longrightarrow> timerFires t s = Some s' \<Longrightarrow> reachable s'"
| generate: "reachable s \<Longrightarrow> reachable (snd (generateRequest s))"
| abort: "reachable s \<Longrightarrow> reachable (snd (abortRequest request s))"
| handler: "reachable s \<Longrightarrow> reachable (snd (callHandler h arg s))"

subsection \<open>Bursts of configuration changes\<close>

text \<open>
  A burst: for each entry, the given number of milliseconds pass without the timeout
  being run, then the property is written and the observer runs.
\<close>

fun burst :: "(nat \<times> change) list \<Rightarrow> manager \<Rightarrow> manager" where
  "burst [] s = s"
| "burst ((d, c) # cs) s = burst cs (requestOptionsChanged (assign c (tick d s)))"

subsection \<open>Notions used in the statements\<close>

text \<open>
  The configurations that pass both checks at the head of \<open>generateRequest\<close>.
\<close>

definition validConfiguration :: "manager \<Rightarrow> bool" where
  "validConfiguration s \<longleftrightarrow>
     \<not> (cache s \<and> (matchesGeneratedPattern (callbackValue s) \<or> callbackValue s = []))
     \<and> url s \<noteq> []"

text \<open>
  \<open>paramsOf s\<close> is the object that \<open>_queryString\<close> starts from and \<open>queryParams s\<close> the
  object it ends with, after its one or two assignments; \<open>withQuery\<close> is the
  conditional of \<open>_requestUrl\<close>. They restate parts of the getters, for the statements
  below; the lemmas \<open>queryString_eq\<close> and \<open>requestUrl_eq\<close> tie them to the getters.
\<close>

definition paramsOf :: "manager \<Rightarrow> js_object" where
  "paramsOf s = (case params s of None \<Rightarrow> [] | Some ps \<Rightarrow> ps)"

definition queryParams :: "manager \<Rightarrow> js_object" where
  "queryParams s =
     (let params1 = (if callbackKey s \<noteq> Some []
                     then obj_set (paramsOf s) (toPropertyKey (callbackKey s)) (callbackValue s)
                     else paramsOf s)
      in if \<not> cache s then obj_set params1 ''_'' (fst (newGuid True s)) else params1)"

definition withQuery :: "string \<Rightarrow> string \<Rightarrow> string" where
  "withQuery u q = (if q \<noteq> [] then u @ ''?'' @ q else u)"


subsection \<open>Invariants\<close>

text \<open>
  The active requests are distinct references that have been handed out; the aggregate
  \<open>loading\<close> flag says whether some active request is loading; the global callbacks are
  bound to requests that have been handed out; the pending timeouts are the one of the
  debouncer, if it is active; the active requests have scripts of their own, which are
  in the document.
\<close>

definition activeOk :: "manager \<Rightarrow> bool" where
  "activeOk s \<longleftrightarrow>
     distinct (activeRequests s) \<and> (\<forall>r \<in> set (activeRequests s). r < nextRequest s)"

definition loadingOk :: "manager \<Rightarrow> bool" where
  "loadingOk s \<longleftrightarrow> loading s = (\<exists>r \<in> set (activeRequests s). isLoading s r)"


definition timersOk :: "manager \<Rightarrow> bool" where
  "timersOk s \<longleftrightarrow>
     (case debounceJob s of
        Some (Debouncer (Some t)) \<Rightarrow> (\<exists>due. timeouts s = [(t, due)])
      | _ \<Rightarrow> timeouts s = [])"

definition scriptOf :: "manager \<Rightarrow> req_ref \<Rightarrow> elem_ref option" where
  "scriptOf s r = Option.bind (requests s r) req_script"

definition scriptsOk :: "manager \<Rightarrow> bool" where
  "scriptsOk s \<longleftrightarrow>
     (\<forall>r \<in> set (activeRequests s).
        \<exists>e. scriptOf s r = Some e \<and> e \<in> set (head_children s) \<and> e < nextElement s)
     \<and> (\<forall>r \<in> set (activeRequests s). \<forall>r' \<in> set (activeRequests s).
          r \<noteq> r' \<longrightarrow> scriptOf s r \<noteq> scriptOf s r')"

subsection \<open>Example managers\<close>

text \<open>
  An element as created, with all draws of \<open>Math.random\<close> giving 0, whose \<open>url\<close> has
  been set; the same after one and after two calls of \<open>generateRequest\<close>; and after the
  scripts of both requests have failed to load, the first one first.
\<close>

definition exampleManager :: manager where
  "exampleManager = assign (SetUrl ''https://api.example.com/data'') (created (\<lambda>i. 0))"

definition oneSent :: manager where
  "oneSent = snd (generateRequest exampleManager)"

definition twoSent :: manager where
  "twoSent = snd (generateRequest oneSent)"

definition twoFinished :: manager where
  "twoFinished = snd (handleError 1 ''error'' (snd (handleError 0 ''error'' twoSent)))"



text \<open>
  Two managers set up for caching. The first has a fixed callback value and a \<open>params\<close>
  with an entry of its own under the callback key. The callback value of the second was
  set by the caller to a fixed string that has the generated form, but that \<open>_newGuid\<close>
  can never produce (its thirteenth digit is not \<open>4\<close>).
\<close>

definition ownCallbackParam :: manager where
  "ownCallbackParam =
     assign (SetParams (Some [(''callback'', ''mine'')]))
       (assign (SetCallbackValue ''cb'') (assign (SetCache True) exampleManager))"

definition staticLookalike :: manager where
  "staticLookalike =
     assign (SetCallbackValue ''vo_jsonp_callback_00000000000000000000000000000000'')
       (assign (SetCache True) exampleManager)"

text \<open>
  A burst on the element as created: \<open>auto\<close> is set, 5 ms later the debounce duration
  is set to 100 ms, and 20 ms after that the URL is set.
\<close>

definition exampleBurst :: "(nat \<times> change) list" where
  "exampleBurst =
     [(0, SetAuto True), (5, SetDebounceDuration 100),
      (20, SetUrl ''https://api.example.com/data'')]"

section \<open>Properties\<close>

subsection \<open>Generated identifiers\<close>

lemma toString16_in: "toString16 n \<in> set ''0123456789abcdef''"
  unfolding toString16_def by (rule nth_mem) simp

lemma toString16_isLowerHex: "isLowerHex (toString16 n)"
  using toString16_in by (simp only: isLowerHex_def)

lemma toString16_not_dash: "toString16 n \<noteq> CHR ''-''"
  using toString16_in [of n] by auto

lemma replaceXY_length: "length (replaceXY t rnd i) = length t"
  by (induction t arbitrary: i) (simp_all add: Let_def)

lemma replaceXY_filter_dash:
  "filter (\<lambda>c. c \<noteq> CHR ''-'') (replaceXY t rnd i) = replaceXY (filter (\<lambda>c. c \<noteq> CHR ''-'') t) rnd i"
  by (induction t arbitrary: i) (simp_all add: Let_def toString16_not_dash)

lemma replaceXY_isLowerHex:
  "list_all (\<lambda>c. isLowerHex c \<or> c = CHR ''x'' \<or> c = CHR ''y'') t \<Longrightarrow> list_all isLowerHex (replaceXY t rnd i)"
  by (induction t arbitrary: i) (auto simp add: Let_def toString16_isLowerHex)

lemma replaceXY_nth_fixed:
  "n < length t \<Longrightarrow> t ! n \<noteq> CHR ''x'' \<Longrightarrow> t ! n \<noteq> CHR ''y'' \<Longrightarrow> replaceXY t rnd i ! n = t ! n"
proof (induction t arbitrary: n i)
  case Nil
  then show ?case by simp
next
  case (Cons c cs)
  then show ?case by (cases n) (simp_all add: Let_def)
qed

lemma guidTemplate_noDashes:
  "filter (\<lambda>c. c \<noteq> CHR ''-'') guidTemplate = ''xxxxxxxxxxxx4xxxyxxxxxxxxxxxxxxx''"
  by (simp add: guidTemplate_def)

lemma newGuid_noDashes:
  "fst (newGuid True s) = replaceXY ''xxxxxxxxxxxx4xxxyxxxxxxxxxxxxxxx'' (randoms s) (randomsUsed s)"
  by (simp add: newGuid_def Let_def replaceXY_filter_dash guidTemplate_noDashes)

lemma newGuid_length: "length (fst (newGuid True s)) = 32"
  by (simp only: newGuid_noDashes replaceXY_length) simp

lemma newGuid_isLowerHex: "list_all isLowerHex (fst (newGuid True s))"
  unfolding newGuid_noDashes by (rule replaceXY_isLowerHex) (simp add: isLowerHex_def)

lemma newGuid_version_digit: "fst (newGuid True s) ! 12 = CHR ''4''"
  unfolding newGuid_noDashes by (subst replaceXY_nth_fixed) simp_all

lemma callbackValueDefault_eq:
  "fst (callbackValueDefault s) = ''vo_jsonp_callback_'' @ fst (newGuid True s)"
  by (simp add: callbackValueDefault_def split_def Let_def)

lemma callbackValueDefault_matches: "matchesGeneratedPattern (fst (callbackValueDefault s))"
  by (simp add: matchesGeneratedPattern_def callbackValueDefault_eq newGuid_length newGuid_isLowerHex)

lemma callbackValueDefault_version_digit: "fst (callbackValueDefault s) ! 30 = CHR ''4''"
proof -
  have "(''vo_jsonp_callback_'' @ fst (newGuid True s)) ! 30 = fst (newGuid True s) ! (30 - length ''vo_jsonp_callback_'')"
    by (subst nth_append) simp
  then show ?thesis by (simp add: callbackValueDefault_eq newGuid_version_digit)
qed

subsection \<open>Arrays and cleanup\<close>

lemma indexOf_notin: "x \<notin> set xs \<Longrightarrow> indexOf xs x = - 1"
  by (induction xs) (auto simp add: Let_def)

lemma indexOf_in:
  "x \<in> set xs \<Longrightarrow> 0 \<le> indexOf xs x \<and> indexOf xs x < int (length xs) \<and> xs ! nat (indexOf xs x) = x"
proof (induction xs)
  case Nil
  then show ?case by simp
next
  case (Cons y ys)
  show ?case
  proof (cases "y = x")
    case True
    then show ?thesis by simp
  next
    case False
    with Cons have "0 \<le> indexOf ys x \<and> indexOf ys x < int (length ys) \<and> ys ! nat (indexOf ys x) = x"
      by simp
    with False show ?thesis
      by (simp add: Let_def nat_add_distrib)
  qed
qed

lemma splice1_indexOf: "x \<in> set xs \<Longrightarrow> splice1 (nat (indexOf xs x)) xs = remove1 x xs"
proof (induction xs)
  case Nil
  then show ?case by simp
next
  case (Cons y ys)
  show ?case
  proof (cases "y = x")
    case True
    then show ?thesis by (simp add: splice1_def)
  next
    case False
    with Cons have ih: "splice1 (nat (indexOf ys x)) ys = remove1 x ys" and "x \<in> set ys"
      by simp_all
    then have "0 \<le> indexOf ys x" by (simp add: indexOf_in)
    then have "nat (indexOf ys x + 1) = Suc (nat (indexOf ys x))" by simp
    with False ih \<open>0 \<le> indexOf ys x\<close> show ?thesis
      by (simp add: Let_def splice1_def)
  qed
qed

lemma indexOf_last_position:
  assumes "indexOf xs x = int (length xs) - 1" and "x \<in> set xs"
  shows "x = last xs"
proof -
  from assms(2) have "xs ! nat (indexOf xs x) = x" by (rule indexOf_in [THEN conjunct2, THEN conjunct2])
  moreover from assms(2) have "xs \<noteq> []" by auto
  moreover from assms(1) have "nat (indexOf xs x) = length xs - 1" by simp
  ultimately show ?thesis by (simp add: last_conv_nth)
qed

lemma indexOf_distinct_last:
  "distinct xs \<Longrightarrow> xs \<noteq> [] \<Longrightarrow> indexOf xs (last xs) = int (length xs) - 1"
proof (induction xs)
  case Nil
  then show ?case by simp
next
  case (Cons y ys)
  show ?case
  proof (cases "ys = []")
    case True
    then show ?thesis by simp
  next
    case False
    with Cons have "indexOf ys (last ys) = int (length ys) - 1" by simp
    moreover from False Cons.prems have "y \<noteq> last ys" by auto
    ultimately show ?thesis using False by (simp add: Let_def)
  qed
qed

lemma indexOf_empty_coincidence:
  "x \<notin> set xs \<Longrightarrow> (indexOf xs x = int (length xs) - 1 \<longleftrightarrow> xs = [])"
  by (simp add: indexOf_notin)

lemma setRequest_frame [simp]:
  "activeRequests (setRequest r f s) = activeRequests s"
  "auto (setRequest r f s) = auto s"
  "cache (setRequest r f s) = cache s"
  "callbackKey (setRequest r f s) = callbackKey s"
  "callbackValue (setRequest r f s) = callbackValue s"
  "debounceDuration (setRequest r f s) = debounceDuration s"
  "lastAborted (setRequest r f s) = lastAborted s"
  "lastError (setRequest r f s) = lastError s"
  "lastLoad (setRequest r f s) = lastLoad s"
  "lastRequest (setRequest r f s) = lastRequest s"
  "lastResponse (setRequest r f s) = lastResponse s"
  "loading (setRequest r f s) = loading s"
  "params (setRequest r f s) = params s"
  "sync (setRequest r f s) = sync s"
  "url (setRequest r f s) = url s"
  "debounceJob (setRequest r f s) = debounceJob s"
  "nextRequest (setRequest r f s) = nextRequest s"
  "elements (setRequest r f s) = elements s"
  "nextElement (setRequest r f s) = nextElement s"
  "head_children (setRequest r f s) = head_children s"
  "window (setRequest r f s) = window s"
  "dispatched (setRequest r f s) = dispatched s"
  "randoms (setRequest r f s) = randoms s"
  "randomsUsed (setRequest r f s) = randomsUsed s"
  "timeouts (setRequest r f s) = timeouts s"
  "nextTimer (setRequest r f s) = nextTimer s"
  "clock (setRequest r f s) = clock s"
  by (simp_all add: setRequest_def split: option.splits)

lemma cleanupRequest_absent:
  "(case request of None \<Rightarrow> True | Some r \<Rightarrow> r \<notin> set (activeRequests s)) \<Longrightarrow>
     cleanupRequest request s = (Inr (), s)"
  by (cases request) (simp_all add: cleanupRequest_def indexOf_notin)

lemma cleanupRequest_activeRequests:
  "r \<in> set (activeRequests s) \<Longrightarrow>
     activeRequests (snd (cleanupRequest (Some r) s)) = remove1 r (activeRequests s)"
  using indexOf_in [of r "activeRequests s"]
  by (simp add: cleanupRequest_def Let_def splice1_indexOf split: option.splits)

lemma cleanupRequest_lastAborted:
  "lastAborted (snd (cleanupRequest request s)) = lastAborted s"
  by (simp add: cleanupRequest_def Let_def split: option.splits)

subsection \<open>What the getters leave alone\<close>

lemma newGuid_frame [simp]:
  "activeRequests (snd (newGuid noDashes s)) = activeRequests s"
  "auto (snd (newGuid noDashes s)) = auto s"
  "cache (snd (newGuid noDashes s)) = cache s"
  "callbackKey (snd (newGuid noDashes s)) = callbackKey s"
  "callbackValue (snd (newGuid noDashes s)) = callbackValue s"
  "debounceDuration (snd (newGuid noDashes s)) = debounceDuration s"
  "lastAborted (snd (newGuid noDashes s)) = lastAborted s"
  "lastError (snd (newGuid noDashes s)) = lastError s"
  "lastLoad (snd (newGuid noDashes s)) = lastLoad s"
  "lastRequest (snd (newGuid noDashes s)) = lastRequest s"
  "lastResponse (snd (newGuid noDashes s)) = lastResponse s"
  "loading (snd (newGuid noDashes s)) = loading s"
  "params (snd (newGuid noDashes s)) = params s"
  "sync (snd (newGuid noDashes s)) = sync s"
  "url (snd (newGuid noDashes s)) = url s"
  "debounceJob (snd (newGuid noDashes s)) = debounceJob s"
  "requests (snd (newGuid noDashes s)) = requests s"
  "nextRequest (snd (newGuid noDashes s)) = nextRequest s"
  "elements (snd (newGuid noDashes s)) = elements s"
  "nextElement (snd (newGuid noDashes s)) = nextElement s"
  "head_children (snd (newGuid noDashes s)) = head_children s"
  "window (snd (newGuid noDashes s)) = window s"
  "dispatched (snd (newGuid noDashes s)) = dispatched s"
  "randoms (snd (newGuid noDashes s)) = randoms s"
  "timeouts (snd (newGuid noDashes s)) = timeouts s"
  "nextTimer (snd (newGuid noDashes s)) = nextTimer s"
  "clock (snd (newGuid noDashes s)) = clock s"
  by (simp_all add: newGuid_def Let_def)

lemma newGuid_randomsUsed [simp]:
  "randomsUsed (snd (newGuid noDashes s)) = randomsUsed s + countXY guidTemplate"
  by (simp add: newGuid_def Let_def)

lemma queryString_frame [simp]:
  "activeRequests (snd (queryString s)) = activeRequests s"
  "auto (snd (queryString s)) = auto s"
  "cache (snd (queryString s)) = cache s"
  "callbackKey (snd (queryString s)) = callbackKey s"
  "callbackValue (snd (queryString s)) = callbackValue s"
  "debounceDuration (snd (queryString s)) = debounceDuration s"
  "lastAborted (snd (queryString s)) = lastAborted s"
  "lastError (snd (queryString s)) = lastError s"
  "lastLoad (snd (queryString s)) = lastLoad s"
  "lastRequest (snd (queryString s)) = lastRequest s"
  "lastResponse (snd (queryString s)) = lastResponse s"
  "loading (snd (queryString s)) = loading s"
  "sync (snd (queryString s)) = sync s"
  "url (snd (queryString s)) = url s"
  "debounceJob (snd (queryString s)) = debounceJob s"
  "requests (snd (queryString s)) = requests s"
  "nextRequest (snd (queryString s)) = nextRequest s"
  "elements (snd (queryString s)) = elements s"
  "nextElement (snd (queryString s)) = nextElement s"
  "head_children (snd (queryString s)) = head_children s"
  "window (snd (queryString s)) = window s"
  "dispatched (snd (queryString s)) = dispatched s"
  "randoms (snd (queryString s)) = randoms s"
  "timeouts (snd (queryString s)) = timeouts s"
  "nextTimer (snd (queryString s)) = nextTimer s"
  "clock (snd (queryString s)) = clock s"
  by (simp_all add: queryString_def Let_def split_def split: option.splits)

lemma requestUrl_frame [simp]:
  "activeRequests (snd (requestUrl s)) = activeRequests s"
  "auto (snd (requestUrl s)) = auto s"
  "cache (snd (requestUrl s)) = cache s"
  "callbackKey (snd (requestUrl s)) = callbackKey s"
  "callbackValue (snd (requestUrl s)) = callbackValue s"
  "debounceDuration (snd (requestUrl s)) = debounceDuration s"
  "lastAborted (snd (requestUrl s)) = lastAborted s"
  "lastError (snd (requestUrl s)) = lastError s"
  "lastLoad (snd (requestUrl s)) = lastLoad s"
  "lastRequest (snd (requestUrl s)) = lastRequest s"
  "lastResponse (snd (requestUrl s)) = lastResponse s"
  "loading (snd (requestUrl s)) = loading s"
  "sync (snd (requestUrl s)) = sync s"
  "url (snd (requestUrl s)) = url s"
  "debounceJob (snd (requestUrl s)) = debounceJob s"
  "requests (snd (requestUrl s)) = requests s"
  "nextRequest (snd (requestUrl s)) = nextRequest s"
  "elements (snd (requestUrl s)) = elements s"
  "nextElement (snd (requestUrl s)) = nextElement s"
  "head_children (snd (requestUrl s)) = head_children s"
  "window (snd (requestUrl s)) = window s"
  "dispatched (snd (requestUrl s)) = dispatched s"
  "randoms (snd (requestUrl s)) = randoms s"
  "timeouts (snd (requestUrl s)) = timeouts s"
  "nextTimer (snd (requestUrl s)) = nextTimer s"
  "clock (snd (requestUrl s)) = clock s"
  by (simp_all add: requestUrl_def Let_def split_def)

lemma requestOptions_frame [simp]:
  "activeRequests (snd (requestOptions s)) = activeRequests s"
  "auto (snd (requestOptions s)) = auto s"
  "cache (snd (requestOptions s)) = cache s"
  "callbackKey (snd (requestOptions s)) = callbackKey s"
  "callbackValue (snd (requestOptions s)) = callbackValue s"
  "debounceDuration (snd (requestOptions s)) = debounceDuration s"
  "lastAborted (snd (requestOptions s)) = lastAborted s"
  "lastError (snd (requestOptions s)) = lastError s"
  "lastLoad (snd (requestOptions s)) = lastLoad s"
  "lastRequest (snd (requestOptions s)) = lastRequest s"
  "lastResponse (snd (requestOptions s)) = lastResponse s"
  "loading (snd (requestOptions s)) = loading s"
  "sync (snd (requestOptions s)) = sync s"
  "url (snd (requestOptions s)) = url s"
  "debounceJob (snd (requestOptions s)) = debounceJob s"
  "requests (snd (requestOptions s)) = requests s"
  "nextRequest (snd (requestOptions s)) = nextRequest s"
  "elements (snd (requestOptions s)) = elements s"
  "nextElement (snd (requestOptions s)) = nextElement s"
  "head_children (snd (requestOptions s)) = head_children s"
  "window (snd (requestOptions s)) = window s"
  "dispatched (snd (requestOptions s)) = dispatched s"
  "randoms (snd (requestOptions s)) = randoms s"
  "timeouts (snd (requestOptions s)) = timeouts s"
  "nextTimer (snd (requestOptions s)) = nextTimer s"
  "clock (snd (requestOptions s)) = clock s"
  by (simp_all add: requestOptions_def Let_def split_def)

subsection \<open>What \<open>generateRequest\<close> writes\<close>

lemma generateRequest_invalid:
  "\<not> validConfiguration s \<Longrightarrow> snd (generateRequest s) = s"
  "\<not> validConfiguration s \<Longrightarrow> \<exists>e. fst (generateRequest s) = Inl e"
  by (auto simp add: validConfiguration_def generateRequest_def)


lemma generateRequest_valid_fields:
  assumes "validConfiguration s"
  shows "activeRequests (snd (generateRequest s)) = activeRequests s @ [nextRequest s]"
    and "nextRequest (snd (generateRequest s)) = Suc (nextRequest s)"
    and "loading (snd (generateRequest s)) = True"
    and "lastAborted (snd (generateRequest s)) = False"
    and "lastRequest (snd (generateRequest s)) = Some (nextRequest s)"
    and "window (snd (generateRequest s)) = (window s)(callbackValue s \<mapsto> HandleResponse (nextRequest s))"
    and "head_children (snd (generateRequest s)) = head_children s @ [nextElement s]"
    and "nextElement (snd (generateRequest s)) = Suc (nextElement s)"
    and "dispatched (snd (generateRequest s)) = dispatched s @ [CustomEvent ''sent'' None]"
  using assms
  by (cases "cache s"; simp add: validConfiguration_def generateRequest_def Let_def split_def
      dispatchEvent_def)+

lemma generateRequest_frame [simp]:
  "auto (snd (generateRequest s)) = auto s"
  "cache (snd (generateRequest s)) = cache s"
  "callbackKey (snd (generateRequest s)) = callbackKey s"
  "callbackValue (snd (generateRequest s)) = callbackValue s"
  "debounceDuration (snd (generateRequest s)) = debounceDuration s"
  "lastError (snd (generateRequest s)) = lastError s"
  "lastLoad (snd (generateRequest s)) = lastLoad s"
  "lastResponse (snd (generateRequest s)) = lastResponse s"
  "sync (snd (generateRequest s)) = sync s"
  "url (snd (generateRequest s)) = url s"
  "debounceJob (snd (generateRequest s)) = debounceJob s"
  "randoms (snd (generateRequest s)) = randoms s"
  "timeouts (snd (generateRequest s)) = timeouts s"
  "nextTimer (snd (generateRequest s)) = nextTimer s"
  "clock (snd (generateRequest s)) = clock s"
  by (simp_all add: generateRequest_def Let_def split_def dispatchEvent_def)

lemma generateRequest_other_requests:
  "r \<noteq> nextRequest s \<Longrightarrow> requests (snd (generateRequest s)) r = requests s r"
  by (simp add: generateRequest_def Let_def split_def dispatchEvent_def setRequest_def)

lemma requestOptions_snapshot [simp]:
  "opt_cache (fst (requestOptions s)) = cache s"
  "opt_callbackKey (fst (requestOptions s)) = callbackKey s"
  "opt_callbackValue (fst (requestOptions s)) = callbackValue s"
  "opt_sync (fst (requestOptions s)) = sync s"
  "opt_url (fst (requestOptions s)) = fst (requestUrl s)"
  by (simp_all add: requestOptions_def Let_def split_def)

lemma generateRequest_new_request:
  assumes "validConfiguration s"
  shows "map_option req_loading (requests (snd (generateRequest s)) (nextRequest s)) = Some True"
    and "Option.bind (requests (snd (generateRequest s)) (nextRequest s)) req_script
           = Some (nextElement s)"
    and "map_option opt_callbackValue
           (Option.bind (requests (snd (generateRequest s)) (nextRequest s)) req_options)
           = Some (callbackValue s)"
  using assms
  by (cases "cache s"; simp add: validConfiguration_def generateRequest_def Let_def split_def
      dispatchEvent_def setRequest_def)+

lemma generateRequest_isLoading:
  "validConfiguration s \<Longrightarrow>
     isLoading (snd (generateRequest s)) r = (r = nextRequest s \<or> isLoading s r)"
  using generateRequest_new_request(1) [of s] generateRequest_other_requests [of r s]
  by (cases "r = nextRequest s") (auto simp add: isLoading_def split: option.splits)

subsection \<open>Aborting\<close>


lemma abortRequest_activeRequests:
  "r \<in> set (activeRequests s) \<Longrightarrow>
     activeRequests (snd (abortRequest (Some r) s)) = remove1 r (activeRequests s)"
  by (simp add: abortRequest_def cleanupRequest_activeRequests)

lemma abortRequest_lastAborted:
  "lastAborted (snd (abortRequest (Some r) s)) =
     (lastAborted s \<or> indexOf (activeRequests s) r = int (length (activeRequests s)) - 1)"
  by (simp add: abortRequest_def cleanupRequest_lastAborted)


subsection \<open>What the other methods leave alone\<close>

lemma dispatchEvent_frame [simp]:
  "activeRequests (dispatchEvent e s) = activeRequests s"
  "auto (dispatchEvent e s) = auto s"
  "cache (dispatchEvent e s) = cache s"
  "callbackKey (dispatchEvent e s) = callbackKey s"
  "callbackValue (dispatchEvent e s) = callbackValue s"
  "debounceDuration (dispatchEvent e s) = debounceDuration s"
  "lastAborted (dispatchEvent e s) = lastAborted s"
  "lastError (dispatchEvent e s) = lastError s"
  "lastLoad (dispatchEvent e s) = lastLoad s"
  "lastRequest (dispatchEvent e s) = lastRequest s"
  "lastResponse (dispatchEvent e s) = lastResponse s"
  "loading (dispatchEvent e s) = loading s"
  "params (dispatchEvent e s) = params s"
  "sync (dispatchEvent e s) = sync s"
  "url (dispatchEvent e s) = url s"
  "debounceJob (dispatchEvent e s) = debounceJob s"
  "requests (dispatchEvent e s) = requests s"
  "nextRequest (dispatchEvent e s) = nextRequest s"
  "elements (dispatchEvent e s) = elements s"
  "nextElement (dispatchEvent e s) = nextElement s"
  "head_children (dispatchEvent e s) = head_children s"
  "window (dispatchEvent e s) = window s"
  "randoms (dispatchEvent e s) = randoms s"
  "randomsUsed (dispatchEvent e s) = randomsUsed s"
  "timeouts (dispatchEvent e s) = timeouts s"
  "nextTimer (dispatchEvent e s) = nextTimer s"
  "clock (dispatchEvent e s) = clock s"
  by (simp_all add: dispatchEvent_def)

lemma dispatchEvent_dispatched [simp]:
  "dispatched (dispatchEvent e s) = dispatched s @ [e]"
  by (simp add: dispatchEvent_def)

lemma cleanupRequest_frame [simp]:
  "auto (snd (cleanupRequest request s)) = auto s"
  "cache (snd (cleanupRequest request s)) = cache s"
  "callbackKey (snd (cleanupRequest request s)) = callbackKey s"
  "callbackValue (snd (cleanupRequest request s)) = callbackValue s"
  "debounceDuration (snd (cleanupRequest request s)) = debounceDuration s"
  "lastAborted (snd (cleanupRequest request s)) = lastAborted s"
  "lastError (snd (cleanupRequest request s)) = lastError s"
  "lastLoad (snd (cleanupRequest request s)) = lastLoad s"
  "lastRequest (snd (cleanupRequest request s)) = lastRequest s"
  "lastResponse (snd (cleanupRequest request s)) = lastResponse s"
  "params (snd (cleanupRequest request s)) = params s"
  "sync (snd (cleanupRequest request s)) = sync s"
  "url (snd (cleanupRequest request s)) = url s"
  "debounceJob (snd (cleanupRequest request s)) = debounceJob s"
  "nextRequest (snd (cleanupRequest request s)) = nextRequest s"
  "elements (snd (cleanupRequest request s)) = elements s"
  "nextElement (snd (cleanupRequest request s)) = nextElement s"
  "dispatched (snd (cleanupRequest request s)) = dispatched s"
  "randoms (snd (cleanupRequest request s)) = randoms s"
  "randomsUsed (snd (cleanupRequest request s)) = randomsUsed s"
  "timeouts (snd (cleanupRequest request s)) = timeouts s"
  "nextTimer (snd (cleanupRequest request s)) = nextTimer s"
  "clock (snd (cleanupRequest request s)) = clock s"
  by (simp_all add: cleanupRequest_def Let_def split: option.splits)

lemma requestOptionsChanged_frame [simp]:
  "activeRequests (requestOptionsChanged s) = activeRequests s"
  "auto (requestOptionsChanged s) = auto s"
  "cache (requestOptionsChanged s) = cache s"
  "callbackKey (requestOptionsChanged s) = callbackKey s"
  "callbackValue (requestOptionsChanged s) = callbackValue s"
  "debounceDuration (requestOptionsChanged s) = debounceDuration s"
  "lastAborted (requestOptionsChanged s) = lastAborted s"
  "lastError (requestOptionsChanged s) = lastError s"
  "lastLoad (requestOptionsChanged s) = lastLoad s"
  "lastRequest (requestOptionsChanged s) = lastRequest s"
  "lastResponse (requestOptionsChanged s) = lastResponse s"
  "loading (requestOptionsChanged s) = loading s"
  "params (requestOptionsChanged s) = params s"
  "sync (requestOptionsChanged s) = sync s"
  "url (requestOptionsChanged s) = url s"
  "requests (requestOptionsChanged s) = requests s"
  "nextRequest (requestOptionsChanged s) = nextRequest s"
  "elements (requestOptionsChanged s) = elements s"
  "nextElement (requestOptionsChanged s) = nextElement s"
  "head_children (requestOptionsChanged s) = head_children s"
  "window (requestOptionsChanged s) = window s"
  "dispatched (requestOptionsChanged s) = dispatched s"
  "randoms (requestOptionsChanged s) = randoms s"
  "randomsUsed (requestOptionsChanged s) = randomsUsed s"
  "clock (requestOptionsChanged s) = clock s"
  by (simp_all add: requestOptionsChanged_def debounce_def setTimeout_def clearTimeout_def Let_def
      split: option.splits debouncer.splits)

lemma tick_frame [simp]:
  "activeRequests (tick d s) = activeRequests s"
  "auto (tick d s) = auto s"
  "cache (tick d s) = cache s"
  "callbackKey (tick d s) = callbackKey s"
  "callbackValue (tick d s) = callbackValue s"
  "debounceDuration (tick d s) = debounceDuration s"
  "lastAborted (tick d s) = lastAborted s"
  "lastError (tick d s) = lastError s"
  "lastLoad (tick d s) = lastLoad s"
  "lastRequest (tick d s) = lastRequest s"
  "lastResponse (tick d s) = lastResponse s"
  "loading (tick d s) = loading s"
  "params (tick d s) = params s"
  "sync (tick d s) = sync s"
  "url (tick d s) = url s"
  "debounceJob (tick d s) = debounceJob s"
  "requests (tick d s) = requests s"
  "nextRequest (tick d s) = nextRequest s"
  "elements (tick d s) = elements s"
  "nextElement (tick d s) = nextElement s"
  "head_children (tick d s) = head_children s"
  "window (tick d s) = window s"
  "dispatched (tick d s) = dispatched s"
  "randoms (tick d s) = randoms s"
  "randomsUsed (tick d s) = randomsUsed s"
  "timeouts (tick d s) = timeouts s"
  "nextTimer (tick d s) = nextTimer s"
  by (simp_all add: tick_def)

lemma clearTimeout_frame [simp]:
  "activeRequests (clearTimeout t s) = activeRequests s"
  "auto (clearTimeout t s) = auto s"
  "cache (clearTimeout t s) = cache s"
  "callbackKey (clearTimeout t s) = callbackKey s"
  "callbackValue (clearTimeout t s) = callbackValue s"
  "debounceDuration (clearTimeout t s) = debounceDuration s"
  "lastAborted (clearTimeout t s) = lastAborted s"
  "lastError (clearTimeout t s) = lastError s"
  "lastLoad (clearTimeout t s) = lastLoad s"
  "lastRequest (clearTimeout t s) = lastRequest s"
  "lastResponse (clearTimeout t s) = lastResponse s"
  "loading (clearTimeout t s) = loading s"
  "params (clearTimeout t s) = params s"
  "sync (clearTimeout t s) = sync s"
  "url (clearTimeout t s) = url s"
  "debounceJob (clearTimeout t s) = debounceJob s"
  "requests (clearTimeout t s) = requests s"
  "nextRequest (clearTimeout t s) = nextRequest s"
  "elements (clearTimeout t s) = elements s"
  "nextElement (clearTimeout t s) = nextElement s"
  "head_children (clearTimeout t s) = head_children s"
  "window (clearTimeout t s) = window s"
  "dispatched (clearTimeout t s) = dispatched s"
  "randoms (clearTimeout t s) = randoms s"
  "randomsUsed (clearTimeout t s) = randomsUsed s"
  "nextTimer (clearTimeout t s) = nextTimer s"
  "clock (clearTimeout t s) = clock s"
  by (simp_all add: clearTimeout_def)

subsection \<open>The active requests of a reachable manager\<close>

lemma cleanupRequest_activeRequests_cases:
  "activeRequests (snd (cleanupRequest request s)) =
     (case request of None \<Rightarrow> activeRequests s | Some r \<Rightarrow> remove1 r (activeRequests s))"
proof (cases request)
  case None
  then show ?thesis by (simp add: cleanupRequest_absent)
next
  case (Some r)
  then show ?thesis
    by (cases "r \<in> set (activeRequests s)")
       (simp_all add: cleanupRequest_activeRequests cleanupRequest_absent remove1_idem)
qed

lemma discardRequest_snd:
  "snd (discardRequest request s) =
     (case fst (cleanupRequest request s) of
        Inl e \<Rightarrow> snd (cleanupRequest request s)
      | Inr u \<Rightarrow> dispatchEvent (CustomEvent ''complete'' None) (snd (cleanupRequest request s)))"
  by (simp add: discardRequest_def split: prod.splits sum.splits)

lemma discardRequest_frame [simp]:
  "activeRequests (snd (discardRequest request s)) = activeRequests (snd (cleanupRequest request s))"
  "nextRequest (snd (discardRequest request s)) = nextRequest s"
  "requests (snd (discardRequest request s)) = requests (snd (cleanupRequest request s))"
  "loading (snd (discardRequest request s)) = loading (snd (cleanupRequest request s))"
  "timeouts (snd (discardRequest request s)) = timeouts s"
  "debounceJob (snd (discardRequest request s)) = debounceJob s"
  "nextTimer (snd (discardRequest request s)) = nextTimer s"
  "lastAborted (snd (discardRequest request s)) = lastAborted s"
  by (simp_all add: discardRequest_snd split: sum.splits)

lemma activeOk_cleanupRequest: "activeOk s \<Longrightarrow> activeOk (snd (cleanupRequest request s))"
  by (auto simp add: activeOk_def cleanupRequest_activeRequests_cases split: option.splits dest: notin_set_remove1)

lemma activeOk_generateRequest: "activeOk s \<Longrightarrow> activeOk (snd (generateRequest s))"
  by (cases "validConfiguration s")
     (auto simp add: activeOk_def generateRequest_valid_fields generateRequest_invalid less_Suc_eq)

lemma activeOk_abortRequest: "activeOk s \<Longrightarrow> activeOk (snd (abortRequest request s))"
  unfolding abortRequest_def Let_def
  by (rule activeOk_cleanupRequest) (auto simp add: activeOk_def split: option.splits)

lemma activeOk_callHandler: "activeOk s \<Longrightarrow> activeOk (snd (callHandler h arg s))"
proof (cases h)
  case (HandleLoad r)
  then show "activeOk s \<Longrightarrow> ?thesis" by (simp add: handleLoad_def Let_def activeOk_def)
next
  case (HandleError r)
  assume "activeOk s"
  then have "activeOk (snd (cleanupRequest (Some r) (dispatchEvent (CustomEvent ''error'' None) (s\<lparr>lastResponse := None, lastError := Some arg\<rparr>))))"
    by (intro activeOk_cleanupRequest) (simp add: activeOk_def)
  with HandleError show ?thesis by (simp add: handleError_def Let_def activeOk_def)
next
  case (HandleResponse r)
  assume "activeOk s"
  then have "activeOk (snd (cleanupRequest (Some r) (dispatchEvent (CustomEvent ''response'' None) (s\<lparr>lastResponse := Some arg, lastError := None\<rparr>))))"
    by (intro activeOk_cleanupRequest) (simp add: activeOk_def)
  with HandleResponse show ?thesis by (simp add: handleResponse_def Let_def activeOk_def)
qed

lemma activeOk_debounceCallback: "activeOk s \<Longrightarrow> activeOk (debounceCallback s)"
  by (simp add: debounceCallback_def activeOk_generateRequest)

lemma activeOk_timerFires:
  assumes "activeOk s" and "timerFires t s = Some s'"
  shows "activeOk s'"
proof -
  let ?s1 = "(clearTimeout t s)\<lparr>debounceJob := Some (Debouncer None)\<rparr>"
  from assms(1) have "activeOk ?s1" by (simp add: activeOk_def)
  then have "activeOk (debounceCallback ?s1)" by (rule activeOk_debounceCallback)
  moreover from assms(2) have "s' = debounceCallback ?s1"
    by (simp add: timerFires_def split: option.splits if_splits)
  ultimately show ?thesis by simp
qed

lemma assign_frame [simp]:
  "activeRequests (assign c s) = activeRequests s"
  "lastAborted (assign c s) = lastAborted s"
  "lastError (assign c s) = lastError s"
  "lastLoad (assign c s) = lastLoad s"
  "lastRequest (assign c s) = lastRequest s"
  "lastResponse (assign c s) = lastResponse s"
  "loading (assign c s) = loading s"
  "debounceJob (assign c s) = debounceJob s"
  "requests (assign c s) = requests s"
  "nextRequest (assign c s) = nextRequest s"
  "elements (assign c s) = elements s"
  "nextElement (assign c s) = nextElement s"
  "head_children (assign c s) = head_children s"
  "window (assign c s) = window s"
  "dispatched (assign c s) = dispatched s"
  "randoms (assign c s) = randoms s"
  "randomsUsed (assign c s) = randomsUsed s"
  "timeouts (assign c s) = timeouts s"
  "nextTimer (assign c s) = nextTimer s"
  "clock (assign c s) = clock s"
  by (cases c; simp)+

lemma created_fields [simp]:
  "activeRequests (created rnd) = []"
  "auto (created rnd) = False"
  "cache (created rnd) = False"
  "callbackKey (created rnd) = Some ''callback''"
  "callbackValue (created rnd) = fst (callbackValueDefault (blank rnd))"
  "debounceDuration (created rnd) = 0"
  "lastAborted (created rnd) = False"
  "lastError (created rnd) = None"
  "lastLoad (created rnd) = None"
  "lastRequest (created rnd) = None"
  "lastResponse (created rnd) = None"
  "loading (created rnd) = False"
  "params (created rnd) = Some []"
  "sync (created rnd) = False"
  "url (created rnd) = []"
  "debounceJob (created rnd) = None"
  "requests (created rnd) = Map.empty"
  "nextRequest (created rnd) = 0"
  "elements (created rnd) = Map.empty"
  "nextElement (created rnd) = 0"
  "head_children (created rnd) = []"
  "window (created rnd) = Map.empty"
  "dispatched (created rnd) = []"
  "randoms (created rnd) = rnd"
  "randomsUsed (created rnd) = countXY guidTemplate"
  "timeouts (created rnd) = []"
  "nextTimer (created rnd) = 0"
  "clock (created rnd) = 0"
  by (simp_all add: created_def callbackValueDefault_def blank_def split_def Let_def)

lemma reachable_activeOk: "reachable s \<Longrightarrow> activeOk s"
proof (induction rule: reachable.induct)
  case (created rnd)
  show ?case by (simp add: activeOk_def)
next
  case (assign s c)
  then show ?case by (simp add: activeOk_def)
next
  case (observer s)
  then show ?case by (simp add: activeOk_def)
next
  case (tick s d)
  then show ?case by (simp add: activeOk_def)
next
  case (timer s t s')
  then show ?case by (simp add: activeOk_timerFires)
next
  case (generate s)
  then show ?case by (simp add: activeOk_generateRequest)
next
  case (abort s request)
  then show ?case by (simp add: activeOk_abortRequest)
next
  case (handler s h arg)
  then show ?case by (simp add: activeOk_callHandler)
qed

subsection \<open>The aggregate \<open>loading\<close> flag of a reachable manager\<close>

lemma isLoading_setRequest_False:
  "isLoading (setRequest r (\<lambda>q. q\<lparr>req_loading := False\<rparr>) s) a = (a \<noteq> r \<and> isLoading s a)"
  by (cases "a = r") (auto simp add: isLoading_def setRequest_def split: option.splits)

lemma cleanupRequest_present:
  assumes "r \<in> set (activeRequests s)"
  shows "requests (snd (cleanupRequest (Some r) s))
           = requests (setRequest r (\<lambda>q. q\<lparr>req_loading := False\<rparr>) s)"
    and "loading (snd (cleanupRequest (Some r) s))
           = (if \<exists>a \<in> set (activeRequests s). a \<noteq> r \<and> isLoading s a then loading s else False)"
  using indexOf_in [OF assms]
  by (auto simp add: cleanupRequest_def Let_def isLoading_setRequest_False filter_empty_conv
      split: option.splits)

lemma isLoading_cleanupRequest:
  "r \<in> set (activeRequests s) \<Longrightarrow>
     isLoading (snd (cleanupRequest (Some r) s)) a = (a \<noteq> r \<and> isLoading s a)"
  using isLoading_setRequest_False [of r s a]
  by (simp add: isLoading_def cleanupRequest_present(1))

lemma loadingOk_cleanupRequest:
  assumes "loadingOk s"
  shows "loadingOk (snd (cleanupRequest request s))"
proof (cases "case request of None \<Rightarrow> True | Some r \<Rightarrow> r \<notin> set (activeRequests s)")
  case True
  with assms show ?thesis by (simp add: cleanupRequest_absent)
next
  case False
  then obtain r where r: "request = Some r" "r \<in> set (activeRequests s)"
    by (cases request) auto
  have "(\<exists>a \<in> set (remove1 r (activeRequests s)). a \<noteq> r \<and> isLoading s a)
          = (\<exists>a \<in> set (activeRequests s). a \<noteq> r \<and> isLoading s a)"
    by (metis in_set_remove1 notin_set_remove1)
  with assms r show ?thesis
    by (auto simp add: loadingOk_def cleanupRequest_present(2) cleanupRequest_activeRequests
        isLoading_cleanupRequest)
qed

lemma loadingOk_generateRequest: "loadingOk s \<Longrightarrow> loadingOk (snd (generateRequest s))"
  by (cases "validConfiguration s")
     (auto simp add: loadingOk_def generateRequest_valid_fields generateRequest_invalid
        generateRequest_isLoading)

lemma loadingOk_abortRequest: "loadingOk s \<Longrightarrow> loadingOk (snd (abortRequest request s))"
  unfolding abortRequest_def Let_def
  by (rule loadingOk_cleanupRequest) (auto simp add: loadingOk_def isLoading_def split: option.splits)

lemma loadingOk_discardRequest: "loadingOk s \<Longrightarrow> loadingOk (snd (discardRequest request s))"
  using loadingOk_cleanupRequest [of s request]
  by (simp add: loadingOk_def isLoading_def)

lemma loadingOk_callHandler: "loadingOk s \<Longrightarrow> loadingOk (snd (callHandler h arg s))"
proof (cases h)
  case (HandleLoad r)
  then show "loadingOk s \<Longrightarrow> ?thesis" by (simp add: handleLoad_def Let_def loadingOk_def isLoading_def)
next
  case (HandleError r)
  assume "loadingOk s"
  then have "loadingOk (snd (discardRequest (Some r) (dispatchEvent (CustomEvent ''error'' None) (s\<lparr>lastResponse := None, lastError := Some arg\<rparr>))))"
    by (intro loadingOk_discardRequest) (simp add: loadingOk_def isLoading_def)
  with HandleError show ?thesis by (simp add: handleError_def Let_def)
next
  case (HandleResponse r)
  assume "loadingOk s"
  then have "loadingOk (snd (discardRequest (Some r) (dispatchEvent (CustomEvent ''response'' None) (s\<lparr>lastResponse := Some arg, lastError := None\<rparr>))))"
    by (intro loadingOk_discardRequest) (simp add: loadingOk_def isLoading_def)
  with HandleResponse show ?thesis by (simp add: handleResponse_def Let_def)
qed

lemma loadingOk_timerFires:
  assumes "loadingOk s" and "timerFires t s = Some s'"
  shows "loadingOk s'"
proof -
  let ?s1 = "(clearTimeout t s)\<lparr>debounceJob := Some (Debouncer None)\<rparr>"
  from assms(1) have "loadingOk ?s1" by (simp add: loadingOk_def isLoading_def)
  then have "loadingOk (debounceCallback ?s1)"
    by (simp add: debounceCallback_def loadingOk_generateRequest)
  moreover from assms(2) have "s' = debounceCallback ?s1"
    by (simp add: timerFires_def split: option.splits if_splits)
  ultimately show ?thesis by simp
qed

lemma reachable_loadingOk: "reachable s \<Longrightarrow> loadingOk s"
proof (induction rule: reachable.induct)
  case (created rnd)
  show ?case by (simp add: loadingOk_def)
next
  case (assign s c)
  then show ?case by (simp add: loadingOk_def isLoading_def)
next
  case (observer s)
  then show ?case by (simp add: loadingOk_def isLoading_def)
next
  case (tick s d)
  then show ?case by (simp add: loadingOk_def isLoading_def)
next
  case (timer s t s')
  then show ?case by (simp add: loadingOk_timerFires)
next
  case (generate s)
  then show ?case by (simp add: loadingOk_generateRequest)
next
  case (abort s request)
  then show ?case by (simp add: loadingOk_abortRequest)
next
  case (handler s h arg)
  then show ?case by (simp add: loadingOk_callHandler)
qed

subsection \<open>The handlers\<close>

lemma cleanupRequest_result:
  assumes "r \<in> set (activeRequests s)"
  shows "fst (cleanupRequest (Some r) s) =
           (case Option.bind (requests s r) req_script of
              None \<Rightarrow> Inl TypeError
            | Some e \<Rightarrow> if e \<in> set (head_children s) then Inr () else Inl TypeError)"
  using indexOf_in [OF assms]
  by (auto simp add: cleanupRequest_def Let_def setRequest_def split: option.splits)

lemma handleError_fields:
  "activeRequests (snd (handleError r ev s)) = remove1 r (activeRequests s)"
  "lastAborted (snd (handleError r ev s)) = lastAborted s"
  "lastRequest (snd (handleError r ev s)) = lastRequest s"
  "lastResponse (snd (handleError r ev s)) = None"
  "lastError (snd (handleError r ev s)) = Some ev"
  by (simp_all add: handleError_def Let_def discardRequest_snd cleanupRequest_activeRequests_cases
      split: sum.splits)

lemma handleResponse_fields:
  "activeRequests (snd (handleResponse r data s)) = remove1 r (activeRequests s)"
  "lastAborted (snd (handleResponse r data s)) = lastAborted s"
  "lastRequest (snd (handleResponse r data s)) = lastRequest s"
  "lastResponse (snd (handleResponse r data s)) = Some data"
  "lastError (snd (handleResponse r data s)) = None"
  by (simp_all add: handleResponse_def Let_def discardRequest_snd cleanupRequest_activeRequests_cases
      split: sum.splits)

lemma cleanupRequest_fst_cong:
  assumes "activeRequests s' = activeRequests s" and "requests s' = requests s"
    and "head_children s' = head_children s"
  shows "fst (cleanupRequest request s') = fst (cleanupRequest request s)"
proof (cases request)
  case None
  then show ?thesis by (simp add: cleanupRequest_absent)
next
  case (Some r)
  show ?thesis
  proof (cases "r \<in> set (activeRequests s)")
    case True
    with assms Some show ?thesis by (simp add: cleanupRequest_result split: option.splits)
  next
    case False
    with assms Some show ?thesis by (simp add: cleanupRequest_absent)
  qed
qed

lemma handleResponse_dispatched:
  "dispatched (snd (handleResponse r data s)) =
     dispatched s @ [CustomEvent ''response'' None]
       @ (case fst (cleanupRequest (Some r) s) of Inl e \<Rightarrow> [] | Inr u \<Rightarrow> [CustomEvent ''complete'' None])"
proof -
  let ?s3 = "dispatchEvent (CustomEvent ''response'' None) (s\<lparr>lastResponse := Some data, lastError := None\<rparr>)"
  have "fst (cleanupRequest (Some r) ?s3) = fst (cleanupRequest (Some r) s)"
    by (rule cleanupRequest_fst_cong) simp_all
  then show ?thesis
    by (simp add: handleResponse_def Let_def discardRequest_snd split: sum.splits)
qed

lemma handleError_dispatched:
  "dispatched (snd (handleError r ev s)) =
     dispatched s @ [CustomEvent ''error'' None]
       @ (case fst (cleanupRequest (Some r) s) of Inl e \<Rightarrow> [] | Inr u \<Rightarrow> [CustomEvent ''complete'' None])"
proof -
  let ?s3 = "dispatchEvent (CustomEvent ''error'' None) (s\<lparr>lastResponse := None, lastError := Some ev\<rparr>)"
  have "fst (cleanupRequest (Some r) ?s3) = fst (cleanupRequest (Some r) s)"
    by (rule cleanupRequest_fst_cong) simp_all
  then show ?thesis
    by (simp add: handleError_def Let_def discardRequest_snd split: sum.splits)
qed

subsection \<open>Objects and the query string\<close>




lemma queryString_eq:
  "fst (queryString s) = join ''&'' (map queryPiece (queryParams s))"
  "params (snd (queryString s)) = (case params s of None \<Rightarrow> None | Some ps \<Rightarrow> Some (queryParams s))"
  "randomsUsed (snd (queryString s)) = (if cache s then randomsUsed s else randomsUsed s + countXY guidTemplate)"
  by (auto simp add: queryString_def queryParams_def paramsOf_def Let_def split_def split: option.splits)

lemma requestUrl_eq:
  "fst (requestUrl s) = withQuery (url s) (join ''&'' (map queryPiece (queryParams s)))"
  "params (snd (requestUrl s)) = (case params s of None \<Rightarrow> None | Some ps \<Rightarrow> Some (queryParams s))"
  "randomsUsed (snd (requestUrl s)) = (if cache s then randomsUsed s else randomsUsed s + countXY guidTemplate)"
  by (simp_all add: requestUrl_def withQuery_def Let_def split_def queryString_eq)


subsection \<open>The URLs of a request\<close>





subsection \<open>The second read of the query string\<close>

lemma requestUrl_config [simp]:
  "paramsOf (snd (requestUrl s)) = (case params s of None \<Rightarrow> [] | Some ps \<Rightarrow> queryParams s)"
  by (simp add: paramsOf_def requestUrl_eq split: option.splits)




subsection \<open>The global callbacks\<close>











subsection \<open>The debouncer\<close>

lemma requestOptionsChanged_timeouts:
  assumes "timersOk s"
  shows "timeouts (requestOptionsChanged s) = [(nextTimer s, clock s + debounceDuration s)]"
    and "debounceJob (requestOptionsChanged s) = Some (Debouncer (Some (nextTimer s)))"
    and "nextTimer (requestOptionsChanged s) = Suc (nextTimer s)"
  using assms
  by (auto simp add: timersOk_def requestOptionsChanged_def debounce_def setTimeout_def
      clearTimeout_def Let_def split: option.splits debouncer.splits)

lemma timersOk_requestOptionsChanged: "timersOk s \<Longrightarrow> timersOk (requestOptionsChanged s)"
  by (simp add: timersOk_def [of "requestOptionsChanged s"] requestOptionsChanged_timeouts)

lemma timersOk_cong:
  "timeouts s' = timeouts s \<Longrightarrow> debounceJob s' = debounceJob s \<Longrightarrow> timersOk s \<Longrightarrow> timersOk s'"
  by (auto simp add: timersOk_def split: option.splits debouncer.splits)

lemma timersOk_generateRequest: "timersOk s \<Longrightarrow> timersOk (snd (generateRequest s))"
  by (rule timersOk_cong [of _ s]) simp_all

lemma timersOk_abortRequest: "timersOk s \<Longrightarrow> timersOk (snd (abortRequest request s))"
  by (rule timersOk_cong [of _ s]) (simp_all add: abortRequest_def Let_def split: option.splits)

lemma timersOk_callHandler: "timersOk s \<Longrightarrow> timersOk (snd (callHandler h arg s))"
  by (rule timersOk_cong [of _ s]; cases h)
     (simp_all add: handleLoad_def handleError_def handleResponse_def Let_def)

lemma timerFires_pending:
  assumes "timersOk s" and "timerFires t s = Some s'"
  shows "\<exists>due. timeouts s = [(t, due)] \<and> due \<le> clock s
           \<and> s' = debounceCallback ((clearTimeout t s)\<lparr>debounceJob := Some (Debouncer None)\<rparr>)"
proof -
  from assms(2) obtain due where due: "map_of (timeouts s) t = Some due" "due \<le> clock s"
    and s': "s' = debounceCallback ((clearTimeout t s)\<lparr>debounceJob := Some (Debouncer None)\<rparr>)"
    by (auto simp add: timerFires_def split: option.splits if_splits)
  from due(1) have "timeouts s \<noteq> []" by auto
  with assms(1) obtain t0 due0 where "timeouts s = [(t0, due0)]"
    by (auto simp add: timersOk_def split: option.splits debouncer.splits)
  with due s' show ?thesis by (auto split: if_splits)
qed

lemma debounceCallback_frame [simp]:
  "timeouts (debounceCallback s) = timeouts s"
  "debounceJob (debounceCallback s) = debounceJob s"
  "nextTimer (debounceCallback s) = nextTimer s"
  by (simp_all add: debounceCallback_def)

lemma timerFires_timeouts:
  assumes "timersOk s" and "timerFires t s = Some s'"
  shows "timeouts s' = []" and "debounceJob s' = Some (Debouncer None)"
  using timerFires_pending [OF assms] by (auto simp add: clearTimeout_def)

lemma timersOk_timerFires: "timersOk s \<Longrightarrow> timerFires t s = Some s' \<Longrightarrow> timersOk s'"
  by (simp add: timersOk_def [of s'] timerFires_timeouts)

lemma reachable_timersOk: "reachable s \<Longrightarrow> timersOk s"
proof (induction rule: reachable.induct)
  case (created rnd)
  show ?case by (simp add: timersOk_def)
next
  case (assign s c)
  then show ?case by (simp add: timersOk_cong [of "assign c s" s])
next
  case (observer s)
  then show ?case by (simp add: timersOk_requestOptionsChanged)
next
  case (tick s d)
  then show ?case by (simp add: timersOk_cong [of "tick d s" s])
next
  case (timer s t s')
  then show ?case by (simp add: timersOk_timerFires)
next
  case (generate s)
  then show ?case by (simp add: timersOk_generateRequest)
next
  case (abort s request)
  then show ?case by (simp add: timersOk_abortRequest)
next
  case (handler s h arg)
  then show ?case by (simp add: timersOk_callHandler)
qed

lemma timersOk_length: "timersOk s \<Longrightarrow> length (timeouts s) \<le> 1"
  by (auto simp add: timersOk_def split: option.splits debouncer.splits)

lemma burst_no_request:
  "nextRequest (burst cs s) = nextRequest s \<and> activeRequests (burst cs s) = activeRequests s
   \<and> dispatched (burst cs s) = dispatched s"
  by (induction cs s rule: burst.induct) simp_all

lemma timersOk_burst: "timersOk s \<Longrightarrow> timersOk (burst cs s)"
  by (induction cs s rule: burst.induct)
     (simp_all add: timersOk_requestOptionsChanged timersOk_cong [of "assign c (tick d s)" s for c d s])

lemma burst_timeouts:
  "timersOk s \<Longrightarrow> cs \<noteq> [] \<Longrightarrow>
     \<exists>t. timeouts (burst cs s) = [(t, clock (burst cs s) + debounceDuration (burst cs s))]
         \<and> debounceJob (burst cs s) = Some (Debouncer (Some t))"
proof (induction cs s rule: burst.induct)
  case (1 s)
  then show ?case by simp
next
  case (2 d c cs s)
  let ?s1 = "requestOptionsChanged (assign c (tick d s))"
  have ok0: "timersOk (assign c (tick d s))"
    using "2.prems"(1) by (rule timersOk_cong [rotated 2]) simp_all
  then have ok1: "timersOk ?s1" by (rule timersOk_requestOptionsChanged)
  show ?case
  proof (cases "cs = []")
    case True
    with requestOptionsChanged_timeouts [OF ok0] show ?thesis by simp
  next
    case False
    with "2.IH" ok1 show ?thesis by simp
  qed
qed

lemma tick_clock [simp]: "clock (tick d s) = clock s + d"
  by (simp add: tick_def)

lemma reachable_burst: "reachable s \<Longrightarrow> reachable (burst cs s)"
  by (induction cs s rule: burst.induct) (simp_all add: reachable.intros)

lemma debounceCallback_nextRequest:
  "nextRequest (debounceCallback s)
     = (if auto s \<and> validConfiguration s then Suc (nextRequest s) else nextRequest s)"
  by (cases "validConfiguration s")
     (simp_all add: debounceCallback_def generateRequest_valid_fields generateRequest_invalid)

lemma timerFires_single:
  assumes "timeouts s = [(t, due)]"
  shows "timerFires t' s =
           (if t' = t \<and> due \<le> clock s
            then Some (debounceCallback ((clearTimeout t s)\<lparr>debounceJob := Some (Debouncer None)\<rparr>))
            else None)"
  using assms by (auto simp add: timerFires_def)

subsection \<open>The scripts of the active requests\<close>

lemma scriptOf_setRequest_loading [simp]:
  "scriptOf (setRequest r (\<lambda>q. q\<lparr>req_loading := False\<rparr>) s) r' = scriptOf s r'"
  by (cases "r' = r") (auto simp add: scriptOf_def setRequest_def split: option.splits)

lemma scriptOf_cong: "requests s' = requests s \<Longrightarrow> scriptOf s' r = scriptOf s r"
  by (simp add: scriptOf_def)

lemma cleanupRequest_scriptOf:
  "scriptOf (snd (cleanupRequest request s)) r' = scriptOf s r'"
proof (cases "case request of None \<Rightarrow> True | Some r \<Rightarrow> r \<notin> set (activeRequests s)")
  case True
  then show ?thesis by (simp add: cleanupRequest_absent)
next
  case False
  then obtain r where r: "request = Some r" "r \<in> set (activeRequests s)"
    by (cases request) auto
  have "scriptOf (snd (cleanupRequest (Some r) s)) r'
          = scriptOf (setRequest r (\<lambda>q. q\<lparr>req_loading := False\<rparr>) s) r'"
    by (rule scriptOf_cong) (simp add: cleanupRequest_present(1) [OF r(2)])
  with r show ?thesis by simp
qed

lemma cleanupRequest_head:
  assumes "r \<in> set (activeRequests s)" and "scriptOf s r = Some e" and "e \<in> set (head_children s)"
  shows "fst (cleanupRequest (Some r) s) = Inr ()"
    and "head_children (snd (cleanupRequest (Some r) s)) = removeAll e (head_children s)"
  using assms indexOf_in [OF assms(1)]
  by (auto simp add: cleanupRequest_def Let_def scriptOf_def setRequest_def bind_eq_Some_conv
      split: option.splits)

lemma scriptsOk_attached:
  assumes "scriptsOk s" and "r \<in> set (activeRequests s)"
  shows "\<exists>e. scriptOf s r = Some e \<and> e \<in> set (head_children s) \<and> e < nextElement s"
proof -
  from assms(1) have "\<forall>r \<in> set (activeRequests s).
      \<exists>e. scriptOf s r = Some e \<and> e \<in> set (head_children s) \<and> e < nextElement s"
    by (simp add: scriptsOk_def)
  with assms(2) show ?thesis by (rule bspec [rotated])
qed

lemma scriptsOk_distinct:
  assumes "scriptsOk s" and "r \<in> set (activeRequests s)" and "r' \<in> set (activeRequests s)"
    and "r \<noteq> r'"
  shows "scriptOf s r \<noteq> scriptOf s r'"
proof -
  from assms(1) have "\<forall>r \<in> set (activeRequests s). \<forall>r' \<in> set (activeRequests s).
      r \<noteq> r' \<longrightarrow> scriptOf s r \<noteq> scriptOf s r'"
    by (simp add: scriptsOk_def)
  with assms(2-4) show ?thesis by blast
qed

lemma scriptsOk_cleanupRequest:
  assumes "scriptsOk s" and "distinct (activeRequests s)"
  shows "scriptsOk (snd (cleanupRequest request s))"
proof (cases "case request of None \<Rightarrow> True | Some r \<Rightarrow> r \<notin> set (activeRequests s)")
  case True
  with assms show ?thesis by (simp add: cleanupRequest_absent)
next
  case False
  then obtain r where r: "request = Some r" "r \<in> set (activeRequests s)"
    by (cases request) auto
  from scriptsOk_attached [OF assms(1) r(2)] obtain e
    where e: "scriptOf s r = Some e" "e \<in> set (head_children s)"
    by blast
  let ?s' = "snd (cleanupRequest (Some r) s)"
  have act: "activeRequests ?s' = remove1 r (activeRequests s)"
    using r(2) by (rule cleanupRequest_activeRequests)
  have hd: "head_children ?s' = removeAll e (head_children s)"
    using r(2) e by (rule cleanupRequest_head)
  have mem: "r' \<in> set (activeRequests ?s') \<longleftrightarrow> r' \<in> set (activeRequests s) \<and> r' \<noteq> r" for r'
    using assms(2) by (simp add: act)
  have other: "scriptOf s r' \<noteq> Some e" if "r' \<in> set (activeRequests s)" "r' \<noteq> r" for r'
  proof -
    from that(2) have "r \<noteq> r'" by simp
    with assms(1) r(2) that(1) have "scriptOf s r \<noteq> scriptOf s r'"
      by (rule scriptsOk_distinct)
    with e(1) show ?thesis by simp
  qed
  have first: "\<exists>e'. scriptOf ?s' r' = Some e' \<and> e' \<in> set (head_children ?s') \<and> e' < nextElement ?s'"
    if "r' \<in> set (activeRequests ?s')" for r'
  proof -
    from that have in_s: "r' \<in> set (activeRequests s)" and ne: "r' \<noteq> r" by (simp_all add: mem)
    from scriptsOk_attached [OF assms(1) in_s] obtain e'
      where e': "scriptOf s r' = Some e'" "e' \<in> set (head_children s)" "e' < nextElement s"
      by blast
    from other [OF in_s ne] e'(1) have "e' \<noteq> e" by auto
    with e' show ?thesis by (simp add: hd cleanupRequest_scriptOf)
  qed
  have second: "scriptOf ?s' r1 \<noteq> scriptOf ?s' r2"
    if "r1 \<in> set (activeRequests ?s')" "r2 \<in> set (activeRequests ?s')" "r1 \<noteq> r2" for r1 r2
  proof -
    from that have "r1 \<in> set (activeRequests s)" "r2 \<in> set (activeRequests s)" by (simp_all add: mem)
    with assms(1) have "scriptOf s r1 \<noteq> scriptOf s r2"
      using that(3) by (rule scriptsOk_distinct)
    then show ?thesis by (simp add: cleanupRequest_scriptOf)
  qed
  show ?thesis
    unfolding r(1) scriptsOk_def
  proof (intro conjI ballI impI)
    fix r' assume "r' \<in> set (activeRequests ?s')"
    then show "\<exists>e'. scriptOf ?s' r' = Some e' \<and> e' \<in> set (head_children ?s') \<and> e' < nextElement ?s'"
      by (rule first)
  next
    fix r1 r2 assume "r1 \<in> set (activeRequests ?s')" "r2 \<in> set (activeRequests ?s')" "r1 \<noteq> r2"
    then show "scriptOf ?s' r1 \<noteq> scriptOf ?s' r2" by (rule second)
  qed
qed

lemma generateRequest_scriptOf:
  "validConfiguration s \<Longrightarrow> scriptOf (snd (generateRequest s)) (nextRequest s) = Some (nextElement s)"
  "r \<noteq> nextRequest s \<Longrightarrow> scriptOf (snd (generateRequest s)) r = scriptOf s r"
  by (simp_all add: scriptOf_def generateRequest_new_request generateRequest_other_requests)

lemma scriptsOk_generateRequest:
  assumes "scriptsOk s" and "activeOk s"
  shows "scriptsOk (snd (generateRequest s))"
proof (cases "validConfiguration s")
  case False
  with assms show ?thesis by (simp add: generateRequest_invalid)
next
  case True
  let ?s' = "snd (generateRequest s)"
  note fields = generateRequest_valid_fields [OF True]
  have old: "r \<noteq> nextRequest s" if "r \<in> set (activeRequests s)" for r
    using assms(2) that by (auto simp add: activeOk_def)
  have mem: "r \<in> set (activeRequests ?s') \<longleftrightarrow> r \<in> set (activeRequests s) \<or> r = nextRequest s" for r
    by (auto simp add: fields)
  have new: "scriptOf ?s' (nextRequest s) = Some (nextElement s)"
    using True by (rule generateRequest_scriptOf)
  have keep: "scriptOf ?s' r = scriptOf s r" if "r \<in> set (activeRequests s)" for r
    using old [OF that] by (rule generateRequest_scriptOf)
  have below: "\<exists>e. scriptOf s r = Some e \<and> e \<in> set (head_children s) \<and> e < nextElement s"
    if "r \<in> set (activeRequests s)" for r
    using assms(1) that by (rule scriptsOk_attached)
  have first: "\<exists>e. scriptOf ?s' r = Some e \<and> e \<in> set (head_children ?s') \<and> e < nextElement ?s'"
    if "r \<in> set (activeRequests ?s')" for r
  proof (cases "r = nextRequest s")
    case True
    with new show ?thesis by (simp add: fields)
  next
    case False
    with that have r: "r \<in> set (activeRequests s)" by (simp add: mem)
    from below [OF r] keep [OF r] show ?thesis by (auto simp add: fields)
  qed
  have fresh: "scriptOf ?s' r \<noteq> Some (nextElement s)" if "r \<in> set (activeRequests s)" for r
  proof -
    from below [OF that] obtain e where "scriptOf s r = Some e" "e < nextElement s" by blast
    then show ?thesis by (simp add: keep [OF that])
  qed
  have second: "scriptOf ?s' r1 \<noteq> scriptOf ?s' r2"
    if "r1 \<in> set (activeRequests ?s')" "r2 \<in> set (activeRequests ?s')" "r1 \<noteq> r2" for r1 r2
  proof (cases "r1 = nextRequest s")
    case True
    with that(2,3) have "r2 \<in> set (activeRequests s)" by (simp add: mem)
    from fresh [OF this] new True show ?thesis by simp
  next
    case r1: False
    with that(1) have a1: "r1 \<in> set (activeRequests s)" by (simp add: mem)
    show ?thesis
    proof (cases "r2 = nextRequest s")
      case True
      from fresh [OF a1] new True show ?thesis by simp
    next
      case False
      with that(2) have a2: "r2 \<in> set (activeRequests s)" by (simp add: mem)
      from assms(1) a1 a2 that(3) have "scriptOf s r1 \<noteq> scriptOf s r2"
        by (rule scriptsOk_distinct)
      then show ?thesis by (simp add: keep [OF a1] keep [OF a2])
    qed
  qed
  show ?thesis
    unfolding scriptsOk_def
  proof (intro conjI ballI impI)
    fix r assume "r \<in> set (activeRequests ?s')"
    then show "\<exists>e. scriptOf ?s' r = Some e \<and> e \<in> set (head_children ?s') \<and> e < nextElement ?s'"
      by (rule first)
  next
    fix r1 r2 assume "r1 \<in> set (activeRequests ?s')" "r2 \<in> set (activeRequests ?s')" "r1 \<noteq> r2"
    then show "scriptOf ?s' r1 \<noteq> scriptOf ?s' r2" by (rule second)
  qed
qed

lemma scriptsOk_cong:
  assumes "activeRequests s' = activeRequests s" and "requests s' = requests s"
    and "head_children s' = head_children s" and "nextElement s' = nextElement s"
    and "scriptsOk s"
  shows "scriptsOk s'"
proof -
  have "scriptOf s' = scriptOf s" using assms(2) by (simp add: scriptOf_def fun_eq_iff)
  with assms show ?thesis by (simp add: scriptsOk_def)
qed

lemma scriptsOk_abortRequest:
  assumes "scriptsOk s" and "distinct (activeRequests s)"
  shows "scriptsOk (snd (abortRequest request s))"
proof -
  let ?request = "if request = None \<and> length (activeRequests s) \<noteq> 0
                  then Some (activeRequests s ! (length (activeRequests s) - 1)) else request"
  let ?s1 = "case ?request of None \<Rightarrow> s
             | Some r \<Rightarrow> if indexOf (activeRequests s) r = int (length (activeRequests s)) - 1
                         then s\<lparr>lastAborted := True\<rparr> else s"
  have same: "activeRequests ?s1 = activeRequests s" "requests ?s1 = requests s"
    "head_children ?s1 = head_children s" "nextElement ?s1 = nextElement s"
    by (simp_all split: option.splits)
  from same assms(1) have "scriptsOk ?s1" by (rule scriptsOk_cong)
  moreover from same(1) assms(2) have "distinct (activeRequests ?s1)" by simp
  ultimately have "scriptsOk (snd (cleanupRequest ?request ?s1))"
    by (rule scriptsOk_cleanupRequest)
  then show ?thesis by (simp add: abortRequest_def Let_def)
qed

lemma discardRequest_more_frame [simp]:
  "head_children (snd (discardRequest request s)) = head_children (snd (cleanupRequest request s))"
  "nextElement (snd (discardRequest request s)) = nextElement s"
  by (simp_all add: discardRequest_snd split: sum.splits)

lemma scriptsOk_discardRequest:
  assumes "scriptsOk s" and "distinct (activeRequests s)"
  shows "scriptsOk (snd (discardRequest request s))"
  by (rule scriptsOk_cong [OF _ _ _ _ scriptsOk_cleanupRequest [OF assms, of request]]) simp_all

lemma scriptsOk_callHandler:
  assumes "scriptsOk s" and "distinct (activeRequests s)"
  shows "scriptsOk (snd (callHandler h arg s))"
proof (cases h)
  case (HandleLoad r)
  have "scriptsOk (handleLoad r arg s)"
    by (rule scriptsOk_cong [OF _ _ _ _ assms(1)]) (simp_all add: handleLoad_def Let_def)
  with HandleLoad show ?thesis by simp
next
  case (HandleError r)
  let ?s3 = "dispatchEvent (CustomEvent ''error'' None) (s\<lparr>lastResponse := None, lastError := Some arg\<rparr>)"
  have "scriptsOk ?s3" by (rule scriptsOk_cong [OF _ _ _ _ assms(1)]) simp_all
  moreover have "distinct (activeRequests ?s3)" using assms(2) by simp
  ultimately have "scriptsOk (snd (discardRequest (Some r) ?s3))" by (rule scriptsOk_discardRequest)
  with HandleError show ?thesis by (simp add: handleError_def Let_def)
next
  case (HandleResponse r)
  let ?s3 = "dispatchEvent (CustomEvent ''response'' None) (s\<lparr>lastResponse := Some arg, lastError := None\<rparr>)"
  have "scriptsOk ?s3" by (rule scriptsOk_cong [OF _ _ _ _ assms(1)]) simp_all
  moreover have "distinct (activeRequests ?s3)" using assms(2) by simp
  ultimately have "scriptsOk (snd (discardRequest (Some r) ?s3))" by (rule scriptsOk_discardRequest)
  with HandleResponse show ?thesis by (simp add: handleResponse_def Let_def)
qed

lemma scriptsOk_timerFires:
  assumes "scriptsOk s" and "activeOk s" and "timerFires t s = Some s'"
  shows "scriptsOk s'"
proof -
  let ?s1 = "(clearTimeout t s)\<lparr>debounceJob := Some (Debouncer None)\<rparr>"
  have "scriptsOk ?s1" by (rule scriptsOk_cong [OF _ _ _ _ assms(1)]) simp_all
  moreover have "activeOk ?s1" using assms(2) by (simp add: activeOk_def)
  ultimately have "scriptsOk (debounceCallback ?s1)"
    by (simp add: debounceCallback_def scriptsOk_generateRequest)
  moreover from assms(3) have "s' = debounceCallback ?s1"
    by (simp add: timerFires_def split: option.splits if_splits)
  ultimately show ?thesis by simp
qed

lemma reachable_scriptsOk: "reachable s \<Longrightarrow> scriptsOk s"
proof (induction rule: reachable.induct)
  case (created rnd)
  show ?case by (simp add: scriptsOk_def)
next
  case (assign s c)
  show ?case by (rule scriptsOk_cong [OF _ _ _ _ assign.IH]) simp_all
next
  case (observer s)
  show ?case by (rule scriptsOk_cong [OF _ _ _ _ observer.IH]) simp_all
next
  case (tick s d)
  show ?case by (rule scriptsOk_cong [OF _ _ _ _ tick.IH]) simp_all
next
  case (timer s t s')
  from timer.IH reachable_activeOk [OF timer.hyps(1)] timer.hyps(2)
  show ?case by (rule scriptsOk_timerFires)
next
  case (generate s)
  from generate.IH reachable_activeOk [OF generate.hyps]
  show ?case by (rule scriptsOk_generateRequest)
next
  case (abort s request)
  from reachable_activeOk [OF abort.hyps] have "distinct (activeRequests s)"
    by (simp add: activeOk_def)
  with abort.IH show ?case by (rule scriptsOk_abortRequest)
next
  case (handler s h arg)
  from reachable_activeOk [OF handler.hyps] have "distinct (activeRequests s)"
    by (simp add: activeOk_def)
  with handler.IH show ?case by (rule scriptsOk_callHandler)
qed

lemma reachable_cleanupRequest_returns:
  assumes "reachable s"
  shows "fst (cleanupRequest request s) = Inr ()"
proof (cases "case request of None \<Rightarrow> True | Some r \<Rightarrow> r \<notin> set (activeRequests s)")
  case True
  then show ?thesis by (simp add: cleanupRequest_absent)
next
  case False
  then obtain r where r: "request = Some r" "r \<in> set (activeRequests s)"
    by (cases request) auto
  from scriptsOk_attached [OF reachable_scriptsOk [OF assms] r(2)] obtain e
    where "scriptOf s r = Some e" "e \<in> set (head_children s)" by blast
  with r show ?thesis by (simp add: cleanupRequest_head(1))
qed

subsection \<open>Aborts and responses in a reachable manager\<close>

lemma discardRequest_fst: "fst (discardRequest request s) = fst (cleanupRequest request s)"
  by (simp add: discardRequest_def split: prod.splits sum.splits)

lemma abortRequest_fst_reachable:
  assumes "reachable s"
  shows "fst (abortRequest request s) = Inr ()"
proof -
  let ?request = "if request = None \<and> length (activeRequests s) \<noteq> 0
                  then Some (activeRequests s ! (length (activeRequests s) - 1)) else request"
  have "fst (cleanupRequest ?request s) = Inr ()"
    using assms by (rule reachable_cleanupRequest_returns)
  moreover have "fst (abortRequest request s) = fst (cleanupRequest ?request s)"
    unfolding abortRequest_def Let_def
    by (rule cleanupRequest_fst_cong) (simp_all split: option.splits)
  ultimately show ?thesis by simp
qed

lemma abortRequest_dispatched: "dispatched (snd (abortRequest request s)) = dispatched s"
  by (simp add: abortRequest_def Let_def split: option.splits)

text \<open>
  What \<open>abortRequest\<close> does in a manager that a created element can become: without
  an argument it is the abort of the last active request, or nothing when no request
  is active; it returns normally; it dispatches no event; for an active request it takes
  the request out of the active ones and sets \<open>lastAborted\<close> just when the request is
  the last of them.
\<close>

lemma abortRequest_effects:
  assumes "reachable s"
  shows "(activeRequests s = [] \<longrightarrow> abortRequest None s = (Inr (), s))"
    and "(activeRequests s \<noteq> [] \<longrightarrow>
            abortRequest None s = abortRequest (Some (last (activeRequests s))) s)"
    and "fst (abortRequest request s) = Inr ()"
    and "dispatched (snd (abortRequest request s)) = dispatched s"
    and "(r \<in> set (activeRequests s) \<longrightarrow>
            activeRequests (snd (abortRequest (Some r) s)) = remove1 r (activeRequests s)
            \<and> lastAborted (snd (abortRequest (Some r) s))
                = (lastAborted s \<or> r = last (activeRequests s)))"
proof -
  from assms have d: "distinct (activeRequests s)"
    using reachable_activeOk by (simp add: activeOk_def)
  show "activeRequests s = [] \<longrightarrow> abortRequest None s = (Inr (), s)"
    by (simp add: abortRequest_def cleanupRequest_absent)
  show "activeRequests s \<noteq> [] \<longrightarrow>
          abortRequest None s = abortRequest (Some (last (activeRequests s))) s"
    by (simp add: abortRequest_def last_conv_nth)
  show "fst (abortRequest request s) = Inr ()"
    using assms by (rule abortRequest_fst_reachable)
  show "dispatched (snd (abortRequest request s)) = dispatched s"
    by (rule abortRequest_dispatched)
  show "r \<in> set (activeRequests s) \<longrightarrow>
          activeRequests (snd (abortRequest (Some r) s)) = remove1 r (activeRequests s)
          \<and> lastAborted (snd (abortRequest (Some r) s))
              = (lastAborted s \<or> r = last (activeRequests s))"
  proof
    assume r: "r \<in> set (activeRequests s)"
    then have ne: "activeRequests s \<noteq> []" by auto
    have "indexOf (activeRequests s) r = int (length (activeRequests s)) - 1
            \<longleftrightarrow> r = last (activeRequests s)"
      using indexOf_last_position [OF _ r] indexOf_distinct_last [OF d ne] by auto
    with r show "activeRequests (snd (abortRequest (Some r) s)) = remove1 r (activeRequests s)
          \<and> lastAborted (snd (abortRequest (Some r) s))
              = (lastAborted s \<or> r = last (activeRequests s))"
      by (simp add: abortRequest_activeRequests abortRequest_lastAborted)
  qed
qed

text \<open>
  What \<open>_handleResponse\<close> does for an active request in such a manager: it returns
  normally, records the payload and clears the error, dispatches a \<open>response\<close> event
  and one \<open>complete\<close> event, both constructed from their type alone, takes the request
  out of the active ones and leaves the aggregate \<open>loading\<close> flag right.
\<close>

lemma handleResponse_effects:
  assumes "reachable s" and "r \<in> set (activeRequests s)"
  shows "fst (handleResponse r data s) = Inr ()"
    and "lastResponse (snd (handleResponse r data s)) = Some data"
    and "lastError (snd (handleResponse r data s)) = None"
    and "dispatched (snd (handleResponse r data s))
           = dispatched s @ [CustomEvent ''response'' None, CustomEvent ''complete'' None]"
    and "activeRequests (snd (handleResponse r data s)) = remove1 r (activeRequests s)"
    and "r \<notin> set (activeRequests (snd (handleResponse r data s)))"
    and "loadingOk (snd (handleResponse r data s))"
proof -
  from assms(1) have d: "distinct (activeRequests s)"
    using reachable_activeOk by (simp add: activeOk_def)
  have ret: "fst (cleanupRequest (Some r) s) = Inr ()"
    using assms(1) by (rule reachable_cleanupRequest_returns)
  let ?s3 = "dispatchEvent (CustomEvent ''response'' None) (s\<lparr>lastResponse := Some data, lastError := None\<rparr>)"
  have "fst (cleanupRequest (Some r) ?s3) = fst (cleanupRequest (Some r) s)"
    by (rule cleanupRequest_fst_cong) simp_all
  with ret show "fst (handleResponse r data s) = Inr ()"
    by (simp add: handleResponse_def Let_def discardRequest_fst)
  show "lastResponse (snd (handleResponse r data s)) = Some data"
    and "lastError (snd (handleResponse r data s)) = None"
    and "activeRequests (snd (handleResponse r data s)) = remove1 r (activeRequests s)"
    by (simp_all add: handleResponse_fields)
  show "dispatched (snd (handleResponse r data s))
          = dispatched s @ [CustomEvent ''response'' None, CustomEvent ''complete'' None]"
    using ret by (simp add: handleResponse_dispatched)
  show "r \<notin> set (activeRequests (snd (handleResponse r data s)))"
    using d by (simp add: handleResponse_fields)
  have "loadingOk (snd (callHandler (HandleResponse r) data s))"
    using reachable_loadingOk [OF assms(1)] by (rule loadingOk_callHandler)
  then show "loadingOk (snd (handleResponse r data s))" by simp
qed

subsection \<open>The example managers\<close>

lemma assign_config [simp]:
  "url (assign (SetUrl u) s) = u"
  "params (assign (SetParams ps) s) = ps"
  "cache (assign (SetCache b) s) = b"
  "callbackValue (assign (SetCallbackValue v) s) = v"
  "callbackKey (assign (SetCallbackKey k) s) = k"
  by simp_all

lemma exampleManager_config:
  "url exampleManager = ''https://api.example.com/data''" "cache exampleManager = False"
  "callbackKey exampleManager = Some ''callback''" "params exampleManager = Some []"
  "callbackValue exampleManager = fst (callbackValueDefault (blank (\<lambda>i. 0)))"
  "nextRequest exampleManager = 0" "nextElement exampleManager = 0"
  "activeRequests exampleManager = []" "window exampleManager = Map.empty"
  by (simp_all add: exampleManager_def)

lemma exampleManager_valid: "validConfiguration exampleManager"
  by (simp add: exampleManager_def validConfiguration_def)

lemma oneSent_valid: "validConfiguration oneSent"
  using exampleManager_valid by (simp add: oneSent_def validConfiguration_def)

lemma oneSent_fields:
  "activeRequests oneSent = [0]" "nextRequest oneSent = 1" "lastAborted oneSent = False"
  "dispatched oneSent = [CustomEvent ''sent'' None]" "head_children oneSent = [0]"
  "Option.bind (requests oneSent 0) req_script = Some 0"
  using generateRequest_valid_fields [OF exampleManager_valid]
    generateRequest_new_request [OF exampleManager_valid]
  by (simp_all add: oneSent_def exampleManager_def)

lemma twoSent_fields:
  "activeRequests twoSent = [0, 1]" "lastAborted twoSent = False" "lastRequest twoSent = Some 1"
  using generateRequest_valid_fields [OF oneSent_valid]
  by (simp_all add: twoSent_def oneSent_fields)

lemma twoFinished_fields:
  "activeRequests twoFinished = []" "lastAborted twoFinished = False" "lastRequest twoFinished = Some 1"
  by (simp_all add: twoFinished_def handleError_fields twoSent_fields)







lemma ownCallbackParam_config:
  "url ownCallbackParam = ''https://api.example.com/data''" "cache ownCallbackParam = True"
  "callbackKey ownCallbackParam = Some ''callback''"
  "params ownCallbackParam = Some [(''callback'', ''mine'')]"
  "callbackValue ownCallbackParam = ''cb''"
  "nextRequest ownCallbackParam = 0" "nextElement ownCallbackParam = 0"
  by (simp_all add: ownCallbackParam_def exampleManager_def)



lemma staticLookalike_config:
  "url staticLookalike = ''https://api.example.com/data''" "cache staticLookalike = True"
  "callbackValue staticLookalike = ''vo_jsonp_callback_00000000000000000000000000000000''"
  by (simp_all add: staticLookalike_def exampleManager_def)

lemma staticLookalike_matches:
  "matchesGeneratedPattern ''vo_jsonp_callback_00000000000000000000000000000000''"
  by (simp add: matchesGeneratedPattern_def isLowerHex_def)

lemma exampleBurst_fields:
  "clock (burst exampleBurst (created (\<lambda>i. 0))) = 25"
  "debounceDuration (burst exampleBurst (created (\<lambda>i. 0))) = 100"
  "auto (burst exampleBurst (created (\<lambda>i. 0)))"
  "validConfiguration (burst exampleBurst (created (\<lambda>i. 0)))"
  "nextRequest (created (\<lambda>i. 0)) = 0"
  by (simp_all add: exampleBurst_def validConfiguration_def)

section \<open>The claims\<close>

text \<open>
  C1 (as amended). With the cache flag set, \<open>generateRequest\<close> fails with the
  callback-value error exactly when the callback value is empty or matches the pattern
  \<open>vo_jsonp_callback_\<close> followed by 32 lower-case hexadecimal digits; the failure leaves
  the manager as it was, so no script element has been created; and every value that the
  default of \<open>callbackValue\<close> generates matches the pattern. The test looks at the form
  of the value, not at where it came from.
\<close>

theorem generateRequest_cache_callbackValue_error:
  assumes "cache s"
  shows "(fst (generateRequest s) = Inl CallbackValueError
            \<longleftrightarrow> callbackValue s = [] \<or> matchesGeneratedPattern (callbackValue s))
         \<and> (fst (generateRequest s) = Inl CallbackValueError \<longrightarrow> snd (generateRequest s) = s)
         \<and> matchesGeneratedPattern (fst (callbackValueDefault s0))"
  using assms
  by (auto simp add: generateRequest_def callbackValueDefault_matches Let_def split_def)

theorem generateRequest_cache_callbackValue_error_witness:
  "cache staticLookalike
   \<and> fst (generateRequest staticLookalike) = Inl CallbackValueError
   \<and> snd (generateRequest staticLookalike) = staticLookalike
   \<and> cache ownCallbackParam \<and> callbackValue ownCallbackParam = ''cb''
   \<and> fst (generateRequest ownCallbackParam) \<noteq> Inl CallbackValueError
   \<and> matchesGeneratedPattern (callbackValue exampleManager)"
  using generateRequest_cache_callbackValue_error [of staticLookalike "blank (\<lambda>i. 0)"]
    generateRequest_cache_callbackValue_error [of ownCallbackParam "blank (\<lambda>i. 0)"]
  by (simp add: staticLookalike_config staticLookalike_matches ownCallbackParam_config
      exampleManager_config matchesGeneratedPattern_def [of "''cb''"])

text \<open>
  The claim as stated fails: the callback value of \<open>staticLookalike\<close> is not empty and is
  not a value that the default can generate, the URL is set, and the request is refused
  all the same.
\<close>

theorem static_callbackValue_rejected_counterexample:
  "cache staticLookalike
   \<and> callbackValue staticLookalike \<noteq> []
   \<and> callbackValue staticLookalike \<notin> range (\<lambda>s. fst (callbackValueDefault s))
   \<and> url staticLookalike \<noteq> []
   \<and> fst (generateRequest staticLookalike) = Inl CallbackValueError"
proof -
  have "callbackValue staticLookalike ! 30 \<noteq> CHR ''4''"
    by (simp add: staticLookalike_config)
  then have "callbackValue staticLookalike \<notin> range (\<lambda>s. fst (callbackValueDefault s))"
    using callbackValueDefault_version_digit by auto
  moreover have "fst (generateRequest staticLookalike) = Inl CallbackValueError"
    by (simp add: generateRequest_def staticLookalike_config staticLookalike_matches)
  ultimately show ?thesis
    by (simp add: staticLookalike_config)
qed







text \<open>
  C4. The code departs from the claim when the request handed to \<open>abortRequest\<close> is no
  longer active and no request is: \<open>indexOf\<close> gives \<open>-1\<close>, which is also the length of
  the empty array less one. In \<open>twoFinished\<close> both requests have completed, \<open>lastAborted\<close>
  is false, and the most recent request is request 1; aborting request 0 sets
  \<open>lastAborted\<close>.
\<close>

theorem abortRequest_finished_request_sets_lastAborted:
  "activeRequests twoFinished = [] \<and> lastRequest twoFinished = Some 1 \<and> \<not> lastAborted twoFinished
   \<and> lastAborted (snd (abortRequest (Some 0) twoFinished))"
  by (simp add: twoFinished_fields abortRequest_lastAborted)

text \<open>
  C5. The code departs from the claim in the \<open>response\<close> notification: the event is
  constructed from its type alone and the payload is passed to \<open>dispatchEvent\<close>, which
  does not take it; the payload reaches \<open>lastResponse\<close> only. The other effects are
  as claimed: the request leaves the active requests and one \<open>complete\<close> event follows.
\<close>

theorem handleResponse_event_carries_no_payload:
  "dispatched (snd (handleResponse 0 ''payload'' oneSent))
     = [CustomEvent ''sent'' None, CustomEvent ''response'' None, CustomEvent ''complete'' None]
   \<and> lastResponse (snd (handleResponse 0 ''payload'' oneSent)) = Some ''payload''
   \<and> activeRequests (snd (handleResponse 0 ''payload'' oneSent)) = []"
  by (simp add: handleResponse_dispatched handleResponse_fields cleanupRequest_result oneSent_fields)

text \<open>
  C6. Whenever \<open>generateRequest\<close> raises a configuration error (the URL is missing, or
  the cache flag is set and the callback value is empty or of the generated form), the
  call returns one of its two errors and the manager is as it was before the call: the
  active requests, the \<open>loading\<close> flag, \<open>lastRequest\<close>, \<open>lastAborted\<close>, the global
  callbacks, the document and the store of script elements are all untouched.
\<close>

theorem generateRequest_configuration_error_no_effect:
  assumes "url s = [] \<or>
           (cache s \<and> (callbackValue s = [] \<or> matchesGeneratedPattern (callbackValue s)))"
  shows "(fst (generateRequest s) = Inl CallbackValueError \<or> fst (generateRequest s) = Inl UrlError)
         \<and> snd (generateRequest s) = s"
  using assms by (auto simp add: generateRequest_def)

theorem generateRequest_configuration_error_no_effect_witness:
  "url (created (\<lambda>i. 0)) = []
   \<and> fst (generateRequest (created (\<lambda>i. 0))) = Inl UrlError
   \<and> snd (generateRequest (created (\<lambda>i. 0))) = created (\<lambda>i. 0)
   \<and> cache staticLookalike \<and> matchesGeneratedPattern (callbackValue staticLookalike)
   \<and> fst (generateRequest staticLookalike) = Inl CallbackValueError
   \<and> snd (generateRequest staticLookalike) = staticLookalike"
  using generateRequest_configuration_error_no_effect [of "created (\<lambda>i. 0)"]
    generateRequest_configuration_error_no_effect [of staticLookalike]
  by (simp add: generateRequest_def staticLookalike_config staticLookalike_matches)







text \<open>
  C10. A manager that a created element can become never has more than one pending
  timeout. After a burst of one or more configuration changes, each followed by a run
  of the observer, no request has been generated yet and exactly one timeout is
  pending, due \<open>debounceDuration\<close> milliseconds after the last change; no timeout can
  run before that time; and when it runs, no timeout is left and one request has been
  generated if \<open>auto\<close> is set and the configuration is valid, none otherwise.
\<close>

theorem debounced_auto_request:
  assumes "reachable s" and "cs \<noteq> []"
  shows "length (timeouts s) \<le> 1
         \<and> nextRequest (burst cs s) = nextRequest s
         \<and> (\<exists>t. timeouts (burst cs s)
                    = [(t, clock (burst cs s) + debounceDuration (burst cs s))]
               \<and> (\<forall>d t'. t' \<noteq> t \<or> d < debounceDuration (burst cs s)
                      \<longrightarrow> timerFires t' (tick d (burst cs s)) = None)
               \<and> (\<forall>d. debounceDuration (burst cs s) \<le> d \<longrightarrow>
                     (\<exists>u. timerFires t (tick d (burst cs s)) = Some u
                        \<and> timeouts u = []
                        \<and> nextRequest u
                            = (if auto (burst cs s) \<and> validConfiguration (burst cs s)
                               then Suc (nextRequest s) else nextRequest s))))"
proof -
  let ?b = "burst cs s"
  from assms(1) have ok: "timersOk s" by (rule reachable_timersOk)
  then obtain t where t: "timeouts ?b = [(t, clock ?b + debounceDuration ?b)]"
    using burst_timeouts [OF ok assms(2)] by blast
  have nr: "nextRequest ?b = nextRequest s" by (simp add: burst_no_request)
  have fires: "timerFires t' (tick d ?b) =
      (if t' = t \<and> debounceDuration ?b \<le> d
       then Some (debounceCallback ((clearTimeout t (tick d ?b))\<lparr>debounceJob := Some (Debouncer None)\<rparr>))
       else None)" for t' d
    using timerFires_single [of "tick d ?b" t "clock ?b + debounceDuration ?b" t'] t
    by simp
  have after: "timeouts (debounceCallback ((clearTimeout t (tick d ?b))\<lparr>debounceJob := Some (Debouncer None)\<rparr>)) = []"
    "nextRequest (debounceCallback ((clearTimeout t (tick d ?b))\<lparr>debounceJob := Some (Debouncer None)\<rparr>))
       = (if auto ?b \<and> validConfiguration ?b then Suc (nextRequest s) else nextRequest s)" for d
    using t nr by (simp_all add: debounceCallback_nextRequest validConfiguration_def clearTimeout_def tick_def)
  show ?thesis
    using timersOk_length [OF ok] nr t fires after by auto
qed

theorem debounced_auto_request_witness:
  "reachable (created (\<lambda>i. 0)) \<and> exampleBurst \<noteq> []
   \<and> nextRequest (burst exampleBurst (created (\<lambda>i. 0))) = 0
   \<and> (\<exists>t. timeouts (burst exampleBurst (created (\<lambda>i. 0))) = [(t, 125)]
         \<and> timerFires t (tick 99 (burst exampleBurst (created (\<lambda>i. 0)))) = None
         \<and> (\<exists>u. timerFires t (tick 100 (burst exampleBurst (created (\<lambda>i. 0)))) = Some u
               \<and> timeouts u = [] \<and> nextRequest u = 1))"
proof -
  have r: "reachable (created (\<lambda>i. 0))" by (rule reachable.created)
  have ne: "exampleBurst \<noteq> []" by (simp add: exampleBurst_def)
  from debounced_auto_request [OF r ne] obtain t where
    t: "timeouts (burst exampleBurst (created (\<lambda>i. 0))) = [(t, 125)]"
    and early: "\<And>d t'. t' \<noteq> t \<or> d < 100
                  \<Longrightarrow> timerFires t' (tick d (burst exampleBurst (created (\<lambda>i. 0)))) = None"
    and late: "\<And>d. 100 \<le> d \<Longrightarrow>
                 \<exists>u. timerFires t (tick d (burst exampleBurst (created (\<lambda>i. 0)))) = Some u
                    \<and> timeouts u = [] \<and> nextRequest u = 1"
    by (auto simp add: exampleBurst_fields)
  have "timerFires t (tick 99 (burst exampleBurst (created (\<lambda>i. 0)))) = None"
    by (rule early) simp
  moreover have "\<exists>u. timerFires t (tick 100 (burst exampleBurst (created (\<lambda>i. 0)))) = Some u
                    \<and> timeouts u = [] \<and> nextRequest u = 1"
    by (rule late) simp
  ultimately show ?thesis
    using r ne t debounced_auto_request [OF r ne] by (auto simp add: exampleBurst_fields)
qed

end
